theory Spec2Isabelle
  imports Complex_Main "HOL-Library.AList" "HOL-Library.Multiset"
begin

section \<open>Python values used by the models\<close>

text \<open>
  Python \<open>float\<close> fields are modelled as \<open>real\<close>: sums and quotients are the exact ones,
  rounding is not modelled. Python \<open>str\<close> is \<open>string\<close>; a \<open>dict\<close> is an association list in
  insertion order (its keys are distinct in every dictionary the code builds). An exception
  is a value \<open>Inl e\<close> of a sum type.
\<close>

datatype error =
    KeyError string
  | TypeError
  | ValueError
  | IndexError
  | AttributeError string
  | ClassifierError string
  | FeedError string

text \<open>\<open>str.isspace\<close> on one character, for the characters a \<open>char\<close> can hold.\<close>

definition isspace :: "char \<Rightarrow> bool" where
  "isspace c \<longleftrightarrow>
     (let n = (of_char c :: nat)
      in (9 \<le> n \<and> n \<le> 13) \<or> (28 \<le> n \<and> n \<le> 32) \<or> n = 133 \<or> n = 160)"

text \<open>\<open>str.strip()\<close>: leading and trailing whitespace removed.\<close>

definition strip :: "string \<Rightarrow> string" where
  "strip s = rev (dropWhile isspace (rev (dropWhile isspace s)))"

text \<open>
  \<open>str.lower()\<close> on the code points a \<open>char\<close> can hold: the letters A to Z, and U+00C0 to
  U+00DE but the multiplication sign U+00D7, go to the code point 32 above.
\<close>

definition lower_char :: "char \<Rightarrow> char" where
  "lower_char c =
     (let n = (of_char c :: nat)
      in if (65 \<le> n \<and> n \<le> 90) \<or> (192 \<le> n \<and> n \<le> 222 \<and> n \<noteq> 215)
         then char_of (n + 32) else c)"

definition lower :: "string \<Rightarrow> string" where
  "lower s = map lower_char s"

text \<open>\<open>s.startswith(p)\<close>.\<close>

definition startswith :: "string \<Rightarrow> string \<Rightarrow> bool" where
  "startswith s p \<longleftrightarrow> take (length p) s = p"

section \<open>Article and sentiment records (backend/models/article.py)\<close>

record Article =
  title :: string
  url :: string
  published :: string
  content :: string
  source_type :: string

text \<open>
  The two sentiment classes both have a field \<open>label\<close>; the record fields carry the
  prefix \<open>hs_\<close> (HeadlineSentiment) and \<open>cs_\<close> (ContentSentiment) to keep them apart.
\<close>

record HeadlineSentiment =
  hs_score :: real
  hs_label :: string

record ContentSentiment =
  cs_confidence :: real
  cs_label :: string
  cs_probabilities :: "(string \<times> real) list"

record AnalyzedArticle =
  article :: Article
  headline_sentiment :: HeadlineSentiment
  content_sentiment :: ContentSentiment

text \<open>
  The \<open>validate\<close> methods, check by check. Their \<open>isinstance\<close> tests hold by the types of the
  record fields.
\<close>

definition Article_validate :: "Article \<Rightarrow> bool" where
  "Article_validate a =
     (if title a = [] \<or> strip (title a) = [] then False
      else if url a = [] \<or> \<not> (startswith (url a) ''http://'' \<or> startswith (url a) ''https://'')
        then False
      else if content a = [] \<or> strip (content a) = [] then False
      else if source_type a \<notin> set [''Full Article'', ''Headline Only''] then False
      else True)"

definition HeadlineSentiment_validate :: "HeadlineSentiment \<Rightarrow> bool" where
  "HeadlineSentiment_validate h =
     (if hs_score h < -1 \<or> hs_score h > 1 then False
      else if hs_label h \<notin> set [''Positive'', ''Negative'', ''Neutral''] then False
      else True)"

definition ContentSentiment_validate :: "ContentSentiment \<Rightarrow> bool" where
  "ContentSentiment_validate c =
     (if cs_confidence c < 0 \<or> cs_confidence c > 1 then False
      else if cs_label c \<notin> set [''Positive'', ''Negative'', ''Neutral''] then False
      else (let prob_sum = sum_list (map snd (cs_probabilities c))
            in if \<bar>prob_sum - 1\<bar> > 1 / 100 then False else True))"

definition AnalyzedArticle_validate :: "AnalyzedArticle \<Rightarrow> bool" where
  "AnalyzedArticle_validate a \<longleftrightarrow>
     Article_validate (article a) \<and>
     HeadlineSentiment_validate (headline_sentiment a) \<and>
     ContentSentiment_validate (content_sentiment a)"

section \<open>The report (backend/models/analysis_report.py)\<close>

text \<open>
  The timestamp is a \<open>datetime\<close> of the standard library; its type is a parameter \<open>'ts\<close>
  of the record.
\<close>

record 'ts AnalysisReport =
  timestamp :: 'ts
  query :: string
  category :: string
  total_articles :: int
  sentiment_distribution :: "(string \<times> int) list"
  net_sentiment_score :: real
  market_signal :: string
  articles :: "AnalyzedArticle list"
  processing_time :: real

text \<open>
  \<open>_calculate_sentiment_distribution\<close>: the loop body guards the increment with
  \<open>if sentiment_label in distribution\<close>.
\<close>

fun distribution_loop :: "AnalyzedArticle list \<Rightarrow> (string \<times> int) list \<Rightarrow> (string \<times> int) list" where
  "distribution_loop [] distribution = distribution"
| "distribution_loop (a # as) distribution =
     (let sentiment_label = cs_label (content_sentiment a)
      in if sentiment_label \<in> set (map fst distribution)
         then distribution_loop as (AList.map_entry sentiment_label (\<lambda>n. n + 1) distribution)
         else distribution_loop as distribution)"

definition calculate_sentiment_distribution :: "AnalyzedArticle list \<Rightarrow> (string \<times> int) list" where
  "calculate_sentiment_distribution arts =
     distribution_loop arts [(''Positive'', 0), (''Negative'', 0), (''Neutral'', 0)]"

text \<open>The label-to-direction chain of \<open>_calculate_net_sentiment_score\<close>.\<close>

definition direction :: "string \<Rightarrow> real" where
  "direction l = (if l = ''Positive'' then 1 else if l = ''Negative'' then -1 else 0)"

text \<open>The loop of \<open>_calculate_net_sentiment_score\<close> on the pair (weighted_score, total_weight).\<close>

fun score_loop :: "AnalyzedArticle list \<Rightarrow> real \<times> real \<Rightarrow> real \<times> real" where
  "score_loop [] acc = acc"
| "score_loop (a # as) (weighted_score, total_weight) =
     (let confidence = cs_confidence (content_sentiment a);
          d = direction (cs_label (content_sentiment a))
      in score_loop as (weighted_score + d * confidence, total_weight + confidence))"

definition calculate_net_sentiment_score :: "AnalyzedArticle list \<Rightarrow> real" where
  "calculate_net_sentiment_score arts =
     (if arts = [] then 0
      else (case score_loop arts (0, 0) of
              (weighted_score, total_weight) \<Rightarrow>
                if total_weight > 0 then weighted_score / total_weight else 0))"

definition determine_market_signal :: "real \<Rightarrow> string" where
  "determine_market_signal net =
     (if net > 15 / 100 then ''BULLISH''
      else if net < - (15 / 100) then ''BEARISH''
      else ''NEUTRAL'')"

text \<open>
  The dataclass constructor followed by \<open>__post_init__\<close>: an empty distribution, a score
  of \<open>None\<close> and an empty signal are replaced by the computed ones, in this order.
\<close>

definition AnalysisReport_init ::
  "'ts \<Rightarrow> string \<Rightarrow> string \<Rightarrow> int \<Rightarrow> (string \<times> int) list \<Rightarrow> real option \<Rightarrow> string \<Rightarrow>
   AnalyzedArticle list \<Rightarrow> real \<Rightarrow> 'ts AnalysisReport" where
  "AnalysisReport_init ts q c n sd ns ms arts pt =
     (let sd' = (if sd = [] then calculate_sentiment_distribution arts else sd);
          ns' = (case ns of None \<Rightarrow> calculate_net_sentiment_score arts | Some s \<Rightarrow> s);
          ms' = (if ms = [] then determine_market_signal ns' else ms)
      in \<lparr> timestamp = ts, query = q, category = c, total_articles = n,
           sentiment_distribution = sd', net_sentiment_score = ns', market_signal = ms',
           articles = arts, processing_time = pt \<rparr>)"

text \<open>\<open>create_from_articles\<close>; the clock read \<open>datetime.utcnow()\<close> is the argument \<open>now\<close>.\<close>

definition create_from_articles ::
  "'ts \<Rightarrow> string \<Rightarrow> string \<Rightarrow> AnalyzedArticle list \<Rightarrow> real \<Rightarrow> 'ts AnalysisReport" where
  "create_from_articles now q c arts pt =
     AnalysisReport_init now q c (int (length arts)) [] None [] arts pt"

definition AnalysisReport_validate :: "'ts AnalysisReport \<Rightarrow> bool" where
  "AnalysisReport_validate r =
     (if total_articles r < 0 then False
      else if net_sentiment_score r < -1 \<or> net_sentiment_score r > 1 then False
      else if market_signal r \<notin> set [''BULLISH'', ''BEARISH'', ''NEUTRAL''] then False
      else if processing_time r < 0 then False
      else if set (map fst (sentiment_distribution r)) \<noteq> {''Positive'', ''Negative'', ''Neutral''}
        then False
      else if int (length (articles r)) \<noteq> total_articles r then False
      else list_all AnalyzedArticle_validate (articles r))"

section \<open>Market signal of the engine (backend/services/sentiment_engine.py)\<close>

text \<open>
  The dictionary \<open>calculate_market_signal\<close> returns, as a record of its keys; the key
  \<open>total_articles\<close> is absent from the dictionary returned for an empty list.
\<close>

record MarketSignalStats =
  ms_market_signal :: string
  ms_net_sentiment_score :: real
  ms_sentiment_distribution :: "(string \<times> int) list"
  ms_confidence_weighted_score :: real
  ms_total_articles :: "int option"

text \<open>
  The loop of \<open>calculate_market_signal\<close> on (sentiment_counts, weighted_score, total_weight).
  \<open>sentiment_counts[label] += 1\<close> has no guard: a label that is not a key raises KeyError.
\<close>

fun market_loop ::
  "AnalyzedArticle list \<Rightarrow> (string \<times> int) list \<times> real \<times> real \<Rightarrow>
   error + ((string \<times> int) list \<times> real \<times> real)" where
  "market_loop [] st = Inr st"
| "market_loop (a # as) (sentiment_counts, weighted_score, total_weight) =
     (let c = content_sentiment a
      in case map_of sentiment_counts (cs_label c) of
           None \<Rightarrow> Inl (KeyError (cs_label c))
         | Some n \<Rightarrow>
             market_loop as
               (AList.update (cs_label c) (n + 1) sentiment_counts,
                weighted_score + direction (cs_label c) * cs_confidence c,
                total_weight + cs_confidence c))"

definition calculate_market_signal :: "AnalyzedArticle list \<Rightarrow> error + MarketSignalStats" where
  "calculate_market_signal analyzed_articles =
     (if analyzed_articles = [] then
        Inr \<lparr> ms_market_signal = ''NEUTRAL'', ms_net_sentiment_score = 0,
              ms_sentiment_distribution = [(''Positive'', 0), (''Negative'', 0), (''Neutral'', 0)],
              ms_confidence_weighted_score = 0, ms_total_articles = None \<rparr>
      else
        (case market_loop analyzed_articles
                ([(''Positive'', 0), (''Negative'', 0), (''Neutral'', 0)], 0, 0) of
           Inl e \<Rightarrow> Inl e
         | Inr (sentiment_counts, weighted_score, total_weight) \<Rightarrow>
             (let net = (if total_weight > 0 then weighted_score / total_weight else 0);
                  signal = (if net > 15 / 100 then ''BULLISH''
                            else if net < - (15 / 100) then ''BEARISH''
                            else ''NEUTRAL'')
              in Inr \<lparr> ms_market_signal = signal, ms_net_sentiment_score = net,
                       ms_sentiment_distribution = sentiment_counts,
                       ms_confidence_weighted_score = weighted_score,
                       ms_total_articles = Some (int (length analyzed_articles)) \<rparr>)))"

section \<open>Content scoring (backend/services/sentiment_engine.py)\<close>

definition finbert_labels :: "string list" where
  "finbert_labels = [''Negative'', ''Neutral'', ''Positive'']"

text \<open>\<open>text.split('. ')\<close>: the pieces between the occurrences of the separator, left to right.\<close>

fun split_sentences :: "string \<Rightarrow> string \<Rightarrow> string list" where
  "split_sentences [] cur = [rev cur]"
| "split_sentences [c] cur = [rev (c # cur)]"
| "split_sentences (c # d # cs) cur =
     (if c = CHR ''.'' \<and> d = CHR '' '' then rev cur # split_sentences cs []
      else split_sentences (d # cs) (c # cur))"

text \<open>\<open>text.split()\<close>: the maximal runs of non-whitespace characters.\<close>

fun split_words :: "string \<Rightarrow> string \<Rightarrow> string list" where
  "split_words [] cur = (if cur = [] then [] else [rev cur])"
| "split_words (c # cs) cur =
     (if isspace c then (if cur = [] then split_words cs [] else rev cur # split_words cs [])
      else split_words cs (c # cur))"

text \<open>
  The two loops of \<open>_truncate_text\<close>: pieces are appended, each followed by \<open>sep\<close>, while
  the result stays within the bound; the first piece that does not fit ends the loop.
\<close>

fun append_while_fits :: "nat \<Rightarrow> string \<Rightarrow> string list \<Rightarrow> string \<Rightarrow> string" where
  "append_while_fits max_text_length sep [] truncated = truncated"
| "append_while_fits max_text_length sep (piece # pieces) truncated =
     (if length (truncated @ piece @ sep) \<le> max_text_length
      then append_while_fits max_text_length sep pieces (truncated @ piece @ sep)
      else truncated)"

definition truncate_text :: "nat \<Rightarrow> string \<Rightarrow> string" where
  "truncate_text max_text_length text =
     (if length text \<le> max_text_length then text
      else
        (let truncated = append_while_fits max_text_length ''. '' (split_sentences text []) [];
             truncated = (if truncated = []
                          then append_while_fits max_text_length '' '' (split_words text []) []
                          else truncated);
             truncated = (if truncated = [] then take max_text_length text else truncated)
         in strip truncated))"

text \<open>\<open>np.argmax\<close>: the first index of a greatest element; an empty array raises ValueError.\<close>

fun argmax_loop :: "real list \<Rightarrow> nat \<Rightarrow> nat \<times> real \<Rightarrow> nat" where
  "argmax_loop [] i (best_i, best) = best_i"
| "argmax_loop (p # ps) i (best_i, best) =
     (if p > best then argmax_loop ps (Suc i) (i, p) else argmax_loop ps (Suc i) (best_i, best))"

definition argmax :: "real list \<Rightarrow> error + nat" where
  "argmax ps = (case ps of [] \<Rightarrow> Inl ValueError | p # rest \<Rightarrow> Inr (argmax_loop rest 1 (0, p)))"

text \<open>The fallback value, written out three times in the source.\<close>

definition neutral_fallback :: ContentSentiment where
  "neutral_fallback =
     \<lparr> cs_confidence = 33 / 100, cs_label = ''Neutral'',
       cs_probabilities = [(''Negative'', 33 / 100), (''Neutral'', 34 / 100), (''Positive'', 33 / 100)] \<rparr>"

text \<open>
  The \<open>try\<close> block of \<open>analyze_content\<close>. The tokenizer, the FinBERT model and the softmax
  are the external classifier: \<open>classify\<close> maps the truncated text to the first row of the
  probability array, or raises.
\<close>

definition analyze_content_try ::
  "(string \<Rightarrow> error + real list) \<Rightarrow> nat \<Rightarrow> string \<Rightarrow> error + ContentSentiment" where
  "analyze_content_try classify max_text_length text =
     (if text = [] \<or> strip text = [] then Inr neutral_fallback
      else
        (case classify (truncate_text max_text_length text) of
           Inl e \<Rightarrow> Inl e
         | Inr probabilities \<Rightarrow>
             (case argmax probabilities of
                Inl e \<Rightarrow> Inl e
              | Inr predicted_idx \<Rightarrow>
                  if predicted_idx \<ge> length finbert_labels then Inl IndexError
                  else Inr \<lparr> cs_confidence = probabilities ! predicted_idx,
                             cs_label = finbert_labels ! predicted_idx,
                             cs_probabilities = zip finbert_labels probabilities \<rparr>)))"

text \<open>\<open>analyze_content\<close>: the \<open>except Exception\<close> handler returns the fallback.\<close>

definition analyze_content ::
  "(string \<Rightarrow> error + real list) \<Rightarrow> nat \<Rightarrow> string \<Rightarrow> error + ContentSentiment" where
  "analyze_content classify max_text_length text =
     (case analyze_content_try classify max_text_length text of
        Inl e \<Rightarrow> Inr neutral_fallback
      | Inr c \<Rightarrow> Inr c)"

text \<open>\<open>Config.MAX_TEXT_LENGTH\<close>.\<close>

definition MAX_TEXT_LENGTH :: nat where
  "MAX_TEXT_LENGTH = 512"

section \<open>Fetching and deduplication (backend/services/news_aggregator.py)\<close>

text \<open>
  An entry of a parsed feed. \<open>entry.link\<close> raises AttributeError when the feed gave no
  link; \<open>entry.get('published', '')\<close> has a default.
\<close>

record RssEntry =
  e_title :: string
  e_link :: "string option"
  e_published :: "string option"

text \<open>
  The inner loop of step 1 of \<open>fetch_articles\<close> on (unique_links, raw_entries). An exception
  leaves the loop; what was added before it stays.
\<close>

fun gather_entries_loop ::
  "RssEntry list \<Rightarrow> string set \<times> RssEntry list \<Rightarrow> error option \<times> (string set \<times> RssEntry list)" where
  "gather_entries_loop [] st = (None, st)"
| "gather_entries_loop (entry # entries) (unique_links, raw_entries) =
     (case e_link entry of
        None \<Rightarrow> (Some (AttributeError ''link''), (unique_links, raw_entries))
      | Some link \<Rightarrow>
          if link \<notin> unique_links
          then gather_entries_loop entries (insert link unique_links, raw_entries @ [entry])
          else gather_entries_loop entries (unique_links, raw_entries))"

text \<open>
  The loop over the queries. \<open>feed\<close> is the feed source (\<open>feedparser.parse\<close> of the search
  URL of the query); its exception, and one of the inner loop, is logged and the loop
  continues with the next query.
\<close>

fun gather_loop ::
  "(string \<Rightarrow> error + RssEntry list) \<Rightarrow> nat \<Rightarrow> string list \<Rightarrow>
   string set \<times> RssEntry list \<Rightarrow> string set \<times> RssEntry list" where
  "gather_loop feed articles_per_query [] st = st"
| "gather_loop feed articles_per_query (q # queries) st =
     (case feed q of
        Inl e \<Rightarrow> gather_loop feed articles_per_query queries st
      | Inr entries \<Rightarrow>
          gather_loop feed articles_per_query queries
            (snd (gather_entries_loop (take articles_per_query entries) st)))"

text \<open>
  \<open>_process_rss_entry\<close>, the task of one worker. Its arguments are the entry and the two
  network operations (\<open>resolve\<close> for \<open>resolve_google_urls\<close> on one link, \<open>extract\<close> for
  \<open>extract_content\<close>; both catch their own exceptions); it reads no state of the pre-pass.
\<close>

definition process_rss_entry ::
  "(string \<Rightarrow> string) \<Rightarrow> (string \<Rightarrow> string) \<Rightarrow> nat \<Rightarrow> RssEntry \<Rightarrow> Article option" where
  "process_rss_entry resolve extract min_content_length entry =
     (case e_link entry of
        None \<Rightarrow> None
      | Some link \<Rightarrow>
          (let real_url = resolve link;
               content0 = extract real_url;
               (content1, source_type1) =
                  (if content0 \<noteq> [] \<and> length content0 \<ge> min_content_length
                   then (content0, ''Full Article'')
                   else (e_title entry, ''Headline Only''));
               a = \<lparr> title = e_title entry, url = real_url,
                     published = (case e_published entry of None \<Rightarrow> [] | Some p \<Rightarrow> p),
                     content = content1, source_type = source_type1 \<rparr>
           in if Article_validate a then Some a else None))"

text \<open>
  \<open>fetch_articles\<close>. Step 1 runs to its end and leaves \<open>raw_entries\<close>; step 2 submits one
  task per element of \<open>raw_entries\<close> to the pool and keeps the articles that are not
  \<open>None\<close>. The pool returns them in the order of completion; the list here is in the
  order of submission.
\<close>

definition submitted_entries ::
  "(string \<Rightarrow> error + RssEntry list) \<Rightarrow> nat \<Rightarrow> string list \<Rightarrow> RssEntry list" where
  "submitted_entries feed articles_per_query queries =
     snd (gather_loop feed articles_per_query queries ({}, []))"

definition fetch_articles ::
  "(string \<Rightarrow> error + RssEntry list) \<Rightarrow> nat \<Rightarrow> (RssEntry \<Rightarrow> Article option) \<Rightarrow>
   string list \<Rightarrow> Article list" where
  "fetch_articles feed articles_per_query worker queries =
     List.map_filter worker (submitted_entries feed articles_per_query queries)"

text \<open>
  What the feeds returned for the queries, within the cap per query (nothing for a query
  whose feed raises), and the candidates among them: in each query, the entries before the
  first one without a link, whose AttributeError ends the loop of that query.
\<close>

definition capped_entries ::
  "(string \<Rightarrow> error + RssEntry list) \<Rightarrow> nat \<Rightarrow> string list \<Rightarrow> RssEntry list" where
  "capped_entries feed articles_per_query queries =
     concat (map (\<lambda>q. case feed q of
                          Inl e \<Rightarrow> []
                        | Inr entries \<Rightarrow> take articles_per_query entries)
                 queries)"

definition candidate_entries ::
  "(string \<Rightarrow> error + RssEntry list) \<Rightarrow> nat \<Rightarrow> string list \<Rightarrow> RssEntry list" where
  "candidate_entries feed articles_per_query queries =
     concat (map (\<lambda>q. case feed q of
                          Inl e \<Rightarrow> []
                        | Inr entries \<Rightarrow>
                            takeWhile (\<lambda>e. e_link e \<noteq> None) (take articles_per_query entries))
                 queries)"

text \<open>
  The deduplication as the spec words it (4.1 b, "deduplicate candidates across all queries by
  canonical link"): of the candidates, in their order, the first of each link is kept and
  every later one of that link is dropped.
\<close>

fun dedup_by_link :: "RssEntry list \<Rightarrow> RssEntry list" where
  "dedup_by_link [] = []"
| "dedup_by_link (e # es) = e # dedup_by_link (filter (\<lambda>x. e_link x \<noteq> e_link e) es)"

text \<open>The loop of \<open>deduplicate_articles\<close> on (seen_urls, seen_titles, unique_articles).\<close>

fun dedup_loop ::
  "Article list \<Rightarrow> string set \<Rightarrow> string set \<Rightarrow> Article list \<Rightarrow> Article list" where
  "dedup_loop [] seen_urls seen_titles unique_articles = unique_articles"
| "dedup_loop (a # as) seen_urls seen_titles unique_articles =
     (if url a \<in> seen_urls then dedup_loop as seen_urls seen_titles unique_articles
      else
        (let title_normalized = strip (lower (title a))
         in if title_normalized \<in> seen_titles
            then dedup_loop as seen_urls seen_titles unique_articles
            else dedup_loop as (insert (url a) seen_urls) (insert title_normalized seen_titles)
                   (unique_articles @ [a])))"

definition deduplicate_articles :: "Article list \<Rightarrow> Article list" where
  "deduplicate_articles arts = dedup_loop arts {} {} []"

section \<open>Dictionary serialization (to_dict and from_dict of the models)\<close>

text \<open>
  The values a serialized report is made of. \<open>data[k]\<close> raises KeyError on a missing key.
  The records are typed: a dictionary value of another type than the field's, which the
  Python constructor would store as it is, is the error TypeError here.
\<close>

datatype json =
    JNone
  | JStr string
  | JInt int
  | JFloat real
  | JList "json list"
  | JDict "(string \<times> json) list"

definition bind_result :: "error + 'a \<Rightarrow> ('a \<Rightarrow> error + 'b) \<Rightarrow> error + 'b" where
  "bind_result r f = (case r of Inl e \<Rightarrow> Inl e | Inr v \<Rightarrow> f v)"

definition getitem :: "(string \<times> json) list \<Rightarrow> string \<Rightarrow> error + json" where
  "getitem d k = (case map_of d k of None \<Rightarrow> Inl (KeyError k) | Some v \<Rightarrow> Inr v)"

definition as_str :: "json \<Rightarrow> error + string" where
  "as_str j = (case j of JStr s \<Rightarrow> Inr s | _ \<Rightarrow> Inl TypeError)"

definition as_int :: "json \<Rightarrow> error + int" where
  "as_int j = (case j of JInt n \<Rightarrow> Inr n | _ \<Rightarrow> Inl TypeError)"

definition as_float :: "json \<Rightarrow> error + real" where
  "as_float j = (case j of JFloat x \<Rightarrow> Inr x | JInt n \<Rightarrow> Inr (of_int n) | _ \<Rightarrow> Inl TypeError)"

definition as_optional_float :: "json \<Rightarrow> error + real option" where
  "as_optional_float j =
     (case j of JNone \<Rightarrow> Inr None | JFloat x \<Rightarrow> Inr (Some x) | JInt n \<Rightarrow> Inr (Some (of_int n))
      | _ \<Rightarrow> Inl TypeError)"

definition as_list :: "json \<Rightarrow> error + json list" where
  "as_list j = (case j of JList js \<Rightarrow> Inr js | _ \<Rightarrow> Inl TypeError)"

definition as_dict :: "json \<Rightarrow> error + (string \<times> json) list" where
  "as_dict j = (case j of JDict d \<Rightarrow> Inr d | _ \<Rightarrow> Inl TypeError)"

text \<open>A list comprehension over fallible calls: the first exception ends it.\<close>

fun collect_results :: "(error + 'a) list \<Rightarrow> error + 'a list" where
  "collect_results [] = Inr []"
| "collect_results (r # rs) =
     (case r of
        Inl e \<Rightarrow> Inl e
      | Inr v \<Rightarrow> (case collect_results rs of Inl e \<Rightarrow> Inl e | Inr vs \<Rightarrow> Inr (v # vs)))"

definition as_typed_dict :: "(json \<Rightarrow> error + 'a) \<Rightarrow> json \<Rightarrow> error + (string \<times> 'a) list" where
  "as_typed_dict conv j =
     bind_result (as_dict j)
       (\<lambda>d. collect_results (map (\<lambda>(k, v). bind_result (conv v) (\<lambda>x. Inr (k, x))) d))"

text \<open>\<open>asdict(self)\<close> of the three flat dataclasses.\<close>

definition Article_to_dict :: "Article \<Rightarrow> json" where
  "Article_to_dict a =
     JDict [(''title'', JStr (title a)), (''url'', JStr (url a)),
            (''published'', JStr (published a)), (''content'', JStr (content a)),
            (''source_type'', JStr (source_type a))]"

definition HeadlineSentiment_to_dict :: "HeadlineSentiment \<Rightarrow> json" where
  "HeadlineSentiment_to_dict h =
     JDict [(''score'', JFloat (hs_score h)), (''label'', JStr (hs_label h))]"

definition ContentSentiment_to_dict :: "ContentSentiment \<Rightarrow> json" where
  "ContentSentiment_to_dict c =
     JDict [(''confidence'', JFloat (cs_confidence c)), (''label'', JStr (cs_label c)),
            (''probabilities'', JDict (map (\<lambda>(k, p). (k, JFloat p)) (cs_probabilities c)))]"

text \<open>
  \<open>cls(**data)\<close>: the keys of \<open>data\<close> must be exactly the fields of the dataclass, a missing
  or an unexpected keyword argument raises TypeError.
\<close>

definition Article_from_dict :: "json \<Rightarrow> error + Article" where
  "Article_from_dict data =
     bind_result (as_dict data) (\<lambda>d.
       if set (map fst d) \<noteq> {''title'', ''url'', ''published'', ''content'', ''source_type''}
       then Inl TypeError
       else
         bind_result (bind_result (getitem d ''title'') as_str) (\<lambda>t.
         bind_result (bind_result (getitem d ''url'') as_str) (\<lambda>u.
         bind_result (bind_result (getitem d ''published'') as_str) (\<lambda>p.
         bind_result (bind_result (getitem d ''content'') as_str) (\<lambda>c.
         bind_result (bind_result (getitem d ''source_type'') as_str) (\<lambda>s.
           Inr \<lparr> title = t, url = u, published = p, content = c, source_type = s \<rparr>))))))"

definition HeadlineSentiment_from_dict :: "json \<Rightarrow> error + HeadlineSentiment" where
  "HeadlineSentiment_from_dict data =
     bind_result (as_dict data) (\<lambda>d.
       if set (map fst d) \<noteq> {''score'', ''label''} then Inl TypeError
       else
         bind_result (bind_result (getitem d ''score'') as_float) (\<lambda>x.
         bind_result (bind_result (getitem d ''label'') as_str) (\<lambda>l.
           Inr \<lparr> hs_score = x, hs_label = l \<rparr>)))"

definition ContentSentiment_from_dict :: "json \<Rightarrow> error + ContentSentiment" where
  "ContentSentiment_from_dict data =
     bind_result (as_dict data) (\<lambda>d.
       if set (map fst d) \<noteq> {''confidence'', ''label'', ''probabilities''} then Inl TypeError
       else
         bind_result (bind_result (getitem d ''confidence'') as_float) (\<lambda>x.
         bind_result (bind_result (getitem d ''label'') as_str) (\<lambda>l.
         bind_result (bind_result (getitem d ''probabilities'') (as_typed_dict as_float)) (\<lambda>ps.
           Inr \<lparr> cs_confidence = x, cs_label = l, cs_probabilities = ps \<rparr>))))"

definition AnalyzedArticle_to_dict :: "AnalyzedArticle \<Rightarrow> json" where
  "AnalyzedArticle_to_dict a =
     JDict [(''article'', Article_to_dict (article a)),
            (''headline_sentiment'', HeadlineSentiment_to_dict (headline_sentiment a)),
            (''content_sentiment'', ContentSentiment_to_dict (content_sentiment a))]"

definition AnalyzedArticle_from_dict :: "json \<Rightarrow> error + AnalyzedArticle" where
  "AnalyzedArticle_from_dict data =
     bind_result (as_dict data) (\<lambda>d.
       bind_result (bind_result (getitem d ''article'') Article_from_dict) (\<lambda>a.
       bind_result (bind_result (getitem d ''headline_sentiment'') HeadlineSentiment_from_dict) (\<lambda>h.
       bind_result (bind_result (getitem d ''content_sentiment'') ContentSentiment_from_dict) (\<lambda>c.
         Inr \<lparr> article = a, headline_sentiment = h, content_sentiment = c \<rparr>))))"

text \<open>
  \<open>AnalysisReport.to_dict\<close> and \<open>from_dict\<close>. \<open>isoformat\<close> and \<open>fromisoformat\<close> are the two
  operations of the standard library's \<open>datetime\<close>. \<open>from_dict\<close> ends in the constructor,
  so \<open>__post_init__\<close> runs on the values read.
\<close>

definition AnalysisReport_to_dict :: "('ts \<Rightarrow> string) \<Rightarrow> 'ts AnalysisReport \<Rightarrow> json" where
  "AnalysisReport_to_dict isoformat r =
     JDict [(''timestamp'', JStr (isoformat (timestamp r))),
            (''query'', JStr (query r)),
            (''category'', JStr (category r)),
            (''total_articles'', JInt (total_articles r)),
            (''sentiment_distribution'',
               JDict (map (\<lambda>(k, n). (k, JInt n)) (sentiment_distribution r))),
            (''net_sentiment_score'', JFloat (net_sentiment_score r)),
            (''market_signal'', JStr (market_signal r)),
            (''articles'', JList (map AnalyzedArticle_to_dict (articles r))),
            (''processing_time'', JFloat (processing_time r))]"

definition AnalysisReport_from_dict ::
  "(string \<Rightarrow> error + 'ts) \<Rightarrow> json \<Rightarrow> error + 'ts AnalysisReport" where
  "AnalysisReport_from_dict fromisoformat data =
     bind_result (as_dict data) (\<lambda>d.
       bind_result (bind_result (bind_result (getitem d ''timestamp'') as_str) fromisoformat) (\<lambda>ts.
       bind_result (bind_result (bind_result (getitem d ''articles'') as_list)
                      (\<lambda>js. collect_results (map AnalyzedArticle_from_dict js))) (\<lambda>arts.
       bind_result (bind_result (getitem d ''query'') as_str) (\<lambda>q.
       bind_result (bind_result (getitem d ''category'') as_str) (\<lambda>c.
       bind_result (bind_result (getitem d ''total_articles'') as_int) (\<lambda>n.
       bind_result (bind_result (getitem d ''sentiment_distribution'') (as_typed_dict as_int)) (\<lambda>sd.
       bind_result (bind_result (getitem d ''net_sentiment_score'') as_optional_float) (\<lambda>ns.
       bind_result (bind_result (getitem d ''market_signal'') as_str) (\<lambda>ms.
       bind_result (bind_result (getitem d ''processing_time'') as_float) (\<lambda>pt.
         Inr (AnalysisReport_init ts q c n sd ns ms arts pt)))))))))))"

text \<open>The label and the confidence of a unit, the two fields the aggregation reads.\<close>

definition unit_key :: "AnalyzedArticle \<Rightarrow> string \<times> real" where
  "unit_key a = (cs_label (content_sentiment a), cs_confidence (content_sentiment a))"

text \<open>The normalized title \<open>article.title.lower().strip()\<close> of the deduplication pass.\<close>

definition norm_title :: "Article \<Rightarrow> string" where
  "norm_title a = strip (lower (title a))"

section \<open>Resilience policies (backend/services/financial_data_service.py)\<close>

text \<open>
  \<open>_fetch_ticker_data\<close> is decorated, from top to bottom, with \<open>with_timeout\<close>,
  \<open>with_circuit_breaker\<close> and \<open>with_retry\<close>. The decorators live in
  \<open>backend/utils/error_handling.py\<close>, which is not among the sources.
\<close>

text \<open>
  Modelled from the spec: the failure kinds (spec 7: Transient, Permanent, CircuitOpen; spec
  4.4: "surfaces a Timeout failure") and the breaker's record (spec 3, CircuitState: "state in
  {Closed, Open, HalfOpen}, consecutive_failures: int, opened_at: timestamp|null"). Time is a
  logical clock in milliseconds, carried in the state with the deadline in force, the
  breaker's record and the number of times the underlying call was started.
\<close>

datatype failure = Transient | Permanent | CircuitOpen | Timeout

text \<open>
  Modelled from the spec: what a call yields, a value, a failure, or its cancellation by an
  enclosing deadline (spec 4.4, Timeout: "aborts/cancels the in-flight call").
\<close>

datatype 'a outcome = Ok 'a | Failed failure | Cancelled

datatype breaker_state = Closed | Open | HalfOpen

record CircuitState =
  state :: breaker_state
  consecutive_failures :: nat
  opened_at :: "nat option"

record world =
  clock :: nat
  deadline :: "nat option"
  invocations :: nat
  circuit :: CircuitState

type_synonym 'a operation = "world \<Rightarrow> 'a outcome \<times> world"

record RetryConfig =
  max_retries :: nat
  base_delay :: nat
  max_delay :: nat

record CircuitBreakerConfig =
  failure_threshold :: nat
  recovery_timeout :: nat

text \<open>
  Modelled from the spec: the passing of time under a deadline. Spec 4.4, Timeout: "aborts/cancels
  the in-flight call once a configured duration elapses". \<open>elapse d\<close> lets \<open>d\<close> milliseconds
  pass; when the deadline in force comes first, the clock stops there and the answer is
  \<open>False\<close>.
\<close>

definition elapse :: "nat \<Rightarrow> world \<Rightarrow> bool \<times> world" where
  "elapse d w =
     (case deadline w of
        None \<Rightarrow> (True, w\<lparr>clock := clock w + d\<rparr>)
      | Some dl \<Rightarrow>
          if clock w + d \<le> dl then (True, w\<lparr>clock := clock w + d\<rparr>)
          else (False, w\<lparr>clock := max (clock w) dl\<rparr>))"

text \<open>
  Modelled from the spec: the single outbound call \<open>f\<close> the policies wrap (spec 4.4, "any
  single outbound call"). Its \<open>k\<close>-th start takes a duration and ends in a value or a failure;
  \<open>invoke f\<close> starts it once, under the deadline in force.
\<close>

definition invoke :: "(nat \<Rightarrow> nat \<times> (failure + 'a)) \<Rightarrow> 'a operation" where
  "invoke f w =
     (case f (invocations w) of
        (duration, result) \<Rightarrow>
          (case elapse duration (w\<lparr>invocations := invocations w + 1\<rparr>) of
             (True, w1) \<Rightarrow> ((case result of Inl e \<Rightarrow> Failed e | Inr v \<Rightarrow> Ok v), w1)
           | (False, w1) \<Rightarrow> (Cancelled, w1)))"

text \<open>
  Modelled from the spec: the retry policy of \<open>with_retry\<close>. Spec 4.4, Retry: "on a
  transient-kind failure, retries up to max_retries times using exponential backoff
  (base_delay * 2^attempt, capped at max_delay); permanent-kind failures are not retried";
  spec 7: "Transient (network/timeout -- retryable)", "CircuitOpen (fails fast, no attempt
  made)".
\<close>

definition backoff_delay :: "RetryConfig \<Rightarrow> nat \<Rightarrow> nat" where
  "backoff_delay cfg attempt = min (base_delay cfg * 2 ^ attempt) (max_delay cfg)"

definition retryable :: "failure \<Rightarrow> bool" where
  "retryable e \<longleftrightarrow> e = Transient \<or> e = Timeout"

fun retry_loop :: "RetryConfig \<Rightarrow> 'a operation \<Rightarrow> nat \<Rightarrow> nat \<Rightarrow> 'a operation" where
  "retry_loop cfg g 0 attempt w = g w"
| "retry_loop cfg g (Suc remaining) attempt w =
     (case g w of
        (Failed e, w1) \<Rightarrow>
          if retryable e then
            (case elapse (backoff_delay cfg attempt) w1 of
               (True, w2) \<Rightarrow> retry_loop cfg g remaining (Suc attempt) w2
             | (False, w2) \<Rightarrow> (Cancelled, w2))
          else (Failed e, w1)
      | (Ok v, w1) \<Rightarrow> (Ok v, w1)
      | (Cancelled, w1) \<Rightarrow> (Cancelled, w1))"

definition with_retry :: "RetryConfig \<Rightarrow> 'a operation \<Rightarrow> 'a operation" where
  "with_retry cfg g = retry_loop cfg g (max_retries cfg) 0"

text \<open>
  Modelled from the spec: the circuit breaker of \<open>with_circuit_breaker\<close>. Spec 4.4, Circuit
  breaker: Closed "each failure increments consecutive_failures; reaching failure_threshold
  transitions to Open and records opened_at; any success resets consecutive_failures to 0";
  Open "calls fail immediately with a CircuitOpen error, no attempt made, until
  recovery_timeout has elapsed since opened_at, at which point the state becomes HalfOpen";
  HalfOpen "success transitions to Closed (counters reset); failure transitions back to Open
  (new opened_at)". A cancelled call records nothing.
\<close>

definition record_success :: "CircuitState \<Rightarrow> CircuitState" where
  "record_success c = c\<lparr>state := Closed, consecutive_failures := 0\<rparr>"

definition record_failure :: "CircuitBreakerConfig \<Rightarrow> nat \<Rightarrow> CircuitState \<Rightarrow> CircuitState" where
  "record_failure cfg now c =
     (case state c of
        HalfOpen \<Rightarrow> c\<lparr>state := Open, opened_at := Some now\<rparr>
      | Open \<Rightarrow> c\<lparr>opened_at := Some now\<rparr>
      | Closed \<Rightarrow>
          if consecutive_failures c + 1 \<ge> failure_threshold cfg
          then c\<lparr>state := Open, consecutive_failures := consecutive_failures c + 1,
                 opened_at := Some now\<rparr>
          else c\<lparr>consecutive_failures := consecutive_failures c + 1\<rparr>)"

definition guarded_call :: "CircuitBreakerConfig \<Rightarrow> 'a operation \<Rightarrow> 'a operation" where
  "guarded_call cfg g w =
     (case g w of
        (Ok v, w1) \<Rightarrow> (Ok v, w1\<lparr>circuit := record_success (circuit w1)\<rparr>)
      | (Failed e, w1) \<Rightarrow> (Failed e, w1\<lparr>circuit := record_failure cfg (clock w1) (circuit w1)\<rparr>)
      | (Cancelled, w1) \<Rightarrow> (Cancelled, w1))"

definition with_circuit_breaker :: "CircuitBreakerConfig \<Rightarrow> 'a operation \<Rightarrow> 'a operation" where
  "with_circuit_breaker cfg g w =
     (case state (circuit w) of
        Open \<Rightarrow>
          (case opened_at (circuit w) of
             None \<Rightarrow> (Failed CircuitOpen, w)
           | Some t \<Rightarrow>
               if clock w \<ge> t + recovery_timeout cfg
               then guarded_call cfg g (w\<lparr>circuit := (circuit w)\<lparr>state := HalfOpen\<rparr>\<rparr>)
               else (Failed CircuitOpen, w))
      | Closed \<Rightarrow> guarded_call cfg g w
      | HalfOpen \<Rightarrow> guarded_call cfg g w)"

text \<open>
  Modelled from the spec: the timeout of \<open>with_timeout\<close>. Spec 4.4, Timeout: "aborts/cancels
  the in-flight call once a configured duration elapses; on expiry surfaces a Timeout
  failure". The policy puts its deadline in force for the call it wraps (the earlier of its
  own and an enclosing one) and turns the cancellation at its own deadline into the failure.
\<close>

definition with_timeout :: "nat \<Rightarrow> 'a operation \<Rightarrow> 'a operation" where
  "with_timeout d g w =
     (let own = clock w + d;
          dl = (case deadline w of None \<Rightarrow> own | Some outer \<Rightarrow> min outer own)
      in case g (w\<lparr>deadline := Some dl\<rparr>) of
           (Cancelled, w1) \<Rightarrow>
             ((if clock w1 \<ge> own then Failed Timeout else Cancelled), w1\<lparr>deadline := deadline w\<rparr>)
         | (Ok v, w1) \<Rightarrow> (Ok v, w1\<lparr>deadline := deadline w\<rparr>)
         | (Failed e, w1) \<Rightarrow> (Failed e, w1\<lparr>deadline := deadline w\<rparr>))"

text \<open>
  A decorator stack \<open>@a @b @c def f\<close> is \<open>a(b(c(f)))\<close>: the three policies around a call, in
  the order of lines 66 to 69 of the source.
\<close>

definition protected_call ::
  "nat \<Rightarrow> CircuitBreakerConfig \<Rightarrow> RetryConfig \<Rightarrow> (nat \<Rightarrow> nat \<times> (failure + 'a)) \<Rightarrow> 'a operation" where
  "protected_call d cb_cfg retry_cfg f =
     with_timeout d (with_circuit_breaker cb_cfg (with_retry retry_cfg (invoke f)))"

text \<open>
  \<open>_fetch_ticker_data\<close> with the constants of its decorators, in milliseconds. Its body
  catches every exception and returns \<open>None\<close>: \<open>body k\<close> is the duration of the \<open>k\<close>-th run
  and the ticker object or \<open>None\<close> it returns.
\<close>

definition source_breaker :: CircuitBreakerConfig where
  "source_breaker = \<lparr> failure_threshold = 3, recovery_timeout = 300000 \<rparr>"

definition source_retry :: RetryConfig where
  "source_retry = \<lparr> max_retries = 2, base_delay = 1000, max_delay = 10000 \<rparr>"

definition fetch_ticker_data :: "(nat \<Rightarrow> nat \<times> 'a option) \<Rightarrow> 'a option operation" where
  "fetch_ticker_data body =
     protected_call 30000 source_breaker source_retry (\<lambda>k. (fst (body k), Inr (snd (body k))))"

text \<open>
  The time a run of the retry policy takes when every attempt fails: the durations of the
  attempts from the \<open>i\<close>-th start on, and the backoff delays between them.
\<close>

fun retry_time :: "RetryConfig \<Rightarrow> (nat \<Rightarrow> nat \<times> (failure + 'a)) \<Rightarrow> nat \<Rightarrow> nat \<Rightarrow> nat \<Rightarrow> nat" where
  "retry_time cfg f 0 attempt i = fst (f i)"
| "retry_time cfg f (Suc remaining) attempt i =
     fst (f i) + backoff_delay cfg attempt + retry_time cfg f remaining (Suc attempt) (Suc i)"

section \<open>Example values\<close>

text \<open>The article, the sentiments and the report of \<open>test_data_models\<close> (test_integration.py).\<close>

definition example_article :: Article where
  "example_article =
     \<lparr> title = ''Gold prices surge amid market uncertainty'',
       url = ''https://example.com/gold-news'',
       published = ''2024-01-01'',
       content = ''Gold prices have increased significantly due to market volatility...'',
       source_type = ''Full Article'' \<rparr>"

text \<open>A unit with a given content label and confidence.\<close>

definition example_unit :: "string \<Rightarrow> real \<Rightarrow> AnalyzedArticle" where
  "example_unit l c =
     \<lparr> article = example_article,
       headline_sentiment = \<lparr> hs_score = 0, hs_label = ''Neutral'' \<rparr>,
       content_sentiment = \<lparr> cs_confidence = c, cs_label = l, cs_probabilities = [(l, 1)] \<rparr> \<rparr>"

text \<open>A classifier that raises on every text, and one that returns a fixed softmax row.\<close>

definition failing_classifier :: "string \<Rightarrow> error + real list" where
  "failing_classifier t = Inl (ClassifierError ''model unavailable'')"

definition example_classifier :: "string \<Rightarrow> error + real list" where
  "example_classifier t = Inr [10 / 100, 5 / 100, 85 / 100]"

definition example_analyzed_article :: AnalyzedArticle where
  "example_analyzed_article =
     \<lparr> article = example_article,
       headline_sentiment = \<lparr> hs_score = 65 / 100, hs_label = ''Positive'' \<rparr>,
       content_sentiment =
         \<lparr> cs_confidence = 85 / 100, cs_label = ''Positive'',
           cs_probabilities = [(''Positive'', 85 / 100), (''Negative'', 10 / 100), (''Neutral'', 5 / 100)] \<rparr> \<rparr>"

definition example_report :: "string AnalysisReport" where
  "example_report =
     create_from_articles ''2024-01-01T12:00:00'' ''Gold'' ''commodity'' [example_analyzed_article] (52 / 10)"

text \<open>A report whose distribution counts five units while it holds none.\<close>

definition inconsistent_report :: "string AnalysisReport" where
  "inconsistent_report =
     \<lparr> timestamp = ''2024-01-01T12:00:00'', query = ''Gold'', category = ''commodity'',
       total_articles = 0,
       sentiment_distribution = [(''Positive'', 5), (''Negative'', 0), (''Neutral'', 0)],
       net_sentiment_score = 0, market_signal = ''NEUTRAL'', articles = [],
       processing_time = 0 \<rparr>"

text \<open>
  An underlying call that fails transiently after 100 ms at every start, one that takes 40 s,
  a state with the breaker closed and one with the breaker opened at time 0.
\<close>

definition flaky_call :: "nat \<Rightarrow> nat \<times> (failure + string)" where
  "flaky_call k = (100, Inl Transient)"

definition slow_call :: "nat \<Rightarrow> nat \<times> (failure + string)" where
  "slow_call k = (40000, Inr ''AAPL'')"

definition fresh_world :: world where
  "fresh_world =
     \<lparr> clock = 0, deadline = None, invocations = 0,
       circuit = \<lparr> state = Closed, consecutive_failures = 0, opened_at = None \<rparr> \<rparr>"

definition tripped_world :: world where
  "tripped_world =
     \<lparr> clock = 1000, deadline = None, invocations = 3,
       circuit = \<lparr> state = Open, consecutive_failures = 3, opened_at = Some 0 \<rparr> \<rparr>"

text \<open>
  A feed source: two queries whose feeds share a link, and a feed that raises for every
  other query.
\<close>

definition example_entry :: "string \<Rightarrow> string \<Rightarrow> RssEntry" where
  "example_entry t l = \<lparr> e_title = t, e_link = Some l, e_published = Some ''2024-01-01'' \<rparr>"

definition example_feed :: "string \<Rightarrow> error + RssEntry list" where
  "example_feed q =
     (if q = ''gold market'' then
        Inr [example_entry ''Gold surges'' ''https://news.example.com/a'',
             example_entry ''Gold steadies'' ''https://news.example.com/b'']
      else if q = ''gold price'' then
        Inr [example_entry ''Gold steadies again'' ''https://news.example.com/b'',
             example_entry ''Gold slips'' ''https://news.example.com/c'']
      else Inl (FeedError ''unavailable''))"

section \<open>Properties\<close>

lemma score_loop_sums:
  "score_loop arts (w, t) =
     (w + sum_list (map (\<lambda>a. direction (cs_label (content_sentiment a)) * cs_confidence (content_sentiment a)) arts),
      t + sum_list (map (\<lambda>a. cs_confidence (content_sentiment a)) arts))"
  by (induction arts arbitrary: w t) (simp_all add: Let_def algebra_simps)

lemma direction_abs: "\<bar>direction l\<bar> \<le> 1"
  by (simp add: direction_def)

lemma weighted_abs_le:
  "\<forall>a \<in> set arts. 0 \<le> cs_confidence (content_sentiment a) \<Longrightarrow>
   \<bar>sum_list (map (\<lambda>a. direction (cs_label (content_sentiment a)) * cs_confidence (content_sentiment a)) arts)\<bar>
     \<le> sum_list (map (\<lambda>a. cs_confidence (content_sentiment a)) arts)"
proof (induction arts)
  case Nil
  then show ?case by simp
next
  case (Cons a arts)
  let ?c = "cs_confidence (content_sentiment a)"
  let ?d = "direction (cs_label (content_sentiment a))"
  have c0: "0 \<le> ?c" using Cons.prems by simp
  have "\<bar>?d * ?c\<bar> = \<bar>?d\<bar> * ?c" using c0 by (simp add: abs_mult)
  also have "\<dots> \<le> 1 * ?c" using c0 direction_abs by (intro mult_right_mono) auto
  finally have h: "\<bar>?d * ?c\<bar> \<le> ?c" by simp
  have ih: "\<bar>sum_list (map (\<lambda>a. direction (cs_label (content_sentiment a)) * cs_confidence (content_sentiment a)) arts)\<bar>
     \<le> sum_list (map (\<lambda>a. cs_confidence (content_sentiment a)) arts)"
    using Cons by simp
  show ?case using h ih by simp
qed

text \<open>
  C5: when every confidence lies in [0,1], the net score is the sum of direction times
  confidence over the sum of the confidences, 0 when that sum is zero, and lies in [-1,1].
\<close>

theorem net_score_bounded:
  assumes "\<forall>a \<in> set arts. 0 \<le> cs_confidence (content_sentiment a) \<and> cs_confidence (content_sentiment a) \<le> 1"
  shows "calculate_net_sentiment_score arts =
      (if sum_list (map (\<lambda>a. cs_confidence (content_sentiment a)) arts) = 0 then 0
       else sum_list (map (\<lambda>a. direction (cs_label (content_sentiment a)) *
                               cs_confidence (content_sentiment a)) arts)
            / sum_list (map (\<lambda>a. cs_confidence (content_sentiment a)) arts))
    \<and> -1 \<le> calculate_net_sentiment_score arts \<and> calculate_net_sentiment_score arts \<le> 1"
proof -
  let ?w = "sum_list (map (\<lambda>a. direction (cs_label (content_sentiment a)) * cs_confidence (content_sentiment a)) arts)"
  let ?t = "sum_list (map (\<lambda>a. cs_confidence (content_sentiment a)) arts)"
  have b: "\<bar>?w\<bar> \<le> ?t" using assms by (intro weighted_abs_le) auto
  then have t0: "0 \<le> ?t" by linarith
  have eq: "calculate_net_sentiment_score arts = (if ?t = 0 then 0 else ?w / ?t)"
  proof (cases "arts = []")
    case True
    then show ?thesis by (simp add: calculate_net_sentiment_score_def)
  next
    case False
    then show ?thesis using t0 by (simp add: calculate_net_sentiment_score_def score_loop_sums)
  qed
  have "\<bar>calculate_net_sentiment_score arts\<bar> \<le> 1"
  proof (cases "?t = 0")
    case True
    then show ?thesis by (simp add: eq)
  next
    case False
    then have t: "?t > 0" using t0 by linarith
    have "\<bar>?w / ?t\<bar> \<le> 1" using b t by (simp add: abs_divide)
    then show ?thesis using False by (simp only: eq if_False)
  qed
  then have "-1 \<le> calculate_net_sentiment_score arts \<and> calculate_net_sentiment_score arts \<le> 1"
    by arith
  then show ?thesis using eq by blast
qed

lemma sum_by_keys:
  "sum_list (map (\<lambda>a. g (unit_key a)) arts) = sum_mset (image_mset g (mset (map unit_key arts)))"
proof -
  have "sum_list (map (\<lambda>a. g (unit_key a)) arts) = sum_list (map g (map unit_key arts))"
    by (simp add: comp_def)
  also have "\<dots> = sum_mset (mset (map g (map unit_key arts)))"
    by (simp only: sum_mset_sum_list)
  also have "\<dots> = sum_mset (image_mset g (mset (map unit_key arts)))"
    by (simp only: mset_map)
  finally show ?thesis .
qed

text \<open>
  C1: for every unit list made of exactly three units labelled Positive with confidence 0.9
  and two units labelled Negative with confidence 0.5, in any order, the net score is
  (3*0.9*1 + 2*0.5*(-1)) / (3*0.9 + 2*0.5) = 17/37 (about 0.459), and the report built from
  the list carries this score and the signal BULLISH.
\<close>

theorem scenario_A:
  assumes "mset (map unit_key arts) =
     {# (''Positive'', 9/10), (''Positive'', 9/10), (''Positive'', 9/10),
        (''Negative'', 1/2), (''Negative'', 1/2) #}"
  shows "calculate_net_sentiment_score arts = (3 * (9/10) * 1 + 2 * (1/2) * (-1)) / (3 * (9/10) + 2 * (1/2))
     \<and> calculate_net_sentiment_score arts = 17 / 37
     \<and> net_sentiment_score (create_from_articles now q c arts pt) = 17 / 37
     \<and> market_signal (create_from_articles now q c arts pt) = ''BULLISH''"
proof -
  have ne: "arts \<noteq> []" using assms by auto
  have "sum_list (map (\<lambda>a. direction (fst (unit_key a)) * snd (unit_key a)) arts) = 17 / 10"
    unfolding sum_by_keys [of "\<lambda>k. direction (fst k) * snd k" arts] assms
    by (simp add: direction_def)
  then have w: "sum_list (map (\<lambda>a. direction (cs_label (content_sentiment a)) * cs_confidence (content_sentiment a)) arts) = 17 / 10"
    by (simp add: unit_key_def)
  have "sum_list (map (\<lambda>a. snd (unit_key a)) arts) = 37 / 10"
    unfolding sum_by_keys [of snd arts] assms by simp
  then have t: "sum_list (map (\<lambda>a. cs_confidence (content_sentiment a)) arts) = 37 / 10"
    by (simp add: unit_key_def)
  have net: "calculate_net_sentiment_score arts = 17 / 37"
    using ne by (simp add: calculate_net_sentiment_score_def score_loop_sums w t)
  show ?thesis
    by (simp add: net create_from_articles_def AnalysisReport_init_def determine_market_signal_def)
qed

text \<open>
  C1 (witness): such a list, with the units interleaved.
\<close>

theorem scenario_A_witness:
  "mset (map unit_key
       [example_unit ''Negative'' (1/2), example_unit ''Positive'' (9/10),
        example_unit ''Positive'' (9/10), example_unit ''Negative'' (1/2),
        example_unit ''Positive'' (9/10)]) =
     {# (''Positive'', 9/10), (''Positive'', 9/10), (''Positive'', 9/10),
        (''Negative'', 1/2), (''Negative'', 1/2) #}
   \<and> net_sentiment_score (create_from_articles () ''Gold'' ''commodity''
       [example_unit ''Negative'' (1/2), example_unit ''Positive'' (9/10),
        example_unit ''Positive'' (9/10), example_unit ''Negative'' (1/2),
        example_unit ''Positive'' (9/10)] 1) = 17 / 37
   \<and> market_signal (create_from_articles () ''Gold'' ''commodity''
       [example_unit ''Negative'' (1/2), example_unit ''Positive'' (9/10),
        example_unit ''Positive'' (9/10), example_unit ''Negative'' (1/2),
        example_unit ''Positive'' (9/10)] 1) = ''BULLISH''"
proof -
  have h: "mset (map unit_key
       [example_unit ''Negative'' (1/2), example_unit ''Positive'' (9/10),
        example_unit ''Positive'' (9/10), example_unit ''Negative'' (1/2),
        example_unit ''Positive'' (9/10)]) =
     {# (''Positive'', 9/10), (''Positive'', 9/10), (''Positive'', 9/10),
        (''Negative'', 1/2), (''Negative'', 1/2) #}"
    by (simp add: unit_key_def example_unit_def)
  show ?thesis using h scenario_A [OF h, of "()" "''Gold''" "''commodity''" 1] by simp
qed

lemma sum_list_all_zero: "\<forall>x \<in> set xs. f x = (0::real) \<Longrightarrow> sum_list (map f xs) = 0"
  by (induction xs) simp_all

text \<open>
  C4: the report built from the empty list has net score 0, signal NEUTRAL and
  total_articles 0; \<open>calculate_market_signal\<close> of the empty list returns signal NEUTRAL and
  net score 0; and for every unit list in which every confidence is zero the report has
  net score 0 and signal NEUTRAL. \<open>create_from_articles\<close> has no raising path.
\<close>

theorem aggregation_zero_weight:
  "create_from_articles now q c [] pt =
     \<lparr> timestamp = now, query = q, category = c, total_articles = 0,
       sentiment_distribution = [(''Positive'', 0), (''Negative'', 0), (''Neutral'', 0)],
       net_sentiment_score = 0, market_signal = ''NEUTRAL'', articles = [],
       processing_time = pt \<rparr>
   \<and> calculate_market_signal [] =
     Inr \<lparr> ms_market_signal = ''NEUTRAL'', ms_net_sentiment_score = 0,
           ms_sentiment_distribution = [(''Positive'', 0), (''Negative'', 0), (''Neutral'', 0)],
           ms_confidence_weighted_score = 0, ms_total_articles = None \<rparr>
   \<and> ((\<forall>a \<in> set arts. cs_confidence (content_sentiment a) = 0) \<longrightarrow>
        net_sentiment_score (create_from_articles now q c arts pt) = 0 \<and>
        market_signal (create_from_articles now q c arts pt) = ''NEUTRAL'')"
proof -
  have a: "create_from_articles now q c [] pt =
     \<lparr> timestamp = now, query = q, category = c, total_articles = 0,
       sentiment_distribution = [(''Positive'', 0), (''Negative'', 0), (''Neutral'', 0)],
       net_sentiment_score = 0, market_signal = ''NEUTRAL'', articles = [],
       processing_time = pt \<rparr>"
    by (simp add: create_from_articles_def AnalysisReport_init_def
        calculate_sentiment_distribution_def calculate_net_sentiment_score_def
        determine_market_signal_def)
  have b: "calculate_market_signal [] =
     Inr \<lparr> ms_market_signal = ''NEUTRAL'', ms_net_sentiment_score = 0,
           ms_sentiment_distribution = [(''Positive'', 0), (''Negative'', 0), (''Neutral'', 0)],
           ms_confidence_weighted_score = 0, ms_total_articles = None \<rparr>"
    by (simp add: calculate_market_signal_def)
  have c: "net_sentiment_score (create_from_articles now q c arts pt) = 0 \<and>
        market_signal (create_from_articles now q c arts pt) = ''NEUTRAL''"
    if z: "\<forall>a \<in> set arts. cs_confidence (content_sentiment a) = 0"
  proof -
    have "sum_list (map (\<lambda>a. cs_confidence (content_sentiment a)) arts) = 0"
      using z by (rule sum_list_all_zero)
    then have "calculate_net_sentiment_score arts = 0"
      by (simp add: calculate_net_sentiment_score_def score_loop_sums)
    then show ?thesis
      by (simp add: create_from_articles_def AnalysisReport_init_def determine_market_signal_def)
  qed
  show ?thesis using a b c by blast
qed

text \<open>
  C4 (witness): two units of confidence zero.
\<close>

theorem aggregation_zero_weight_witness:
  "cs_confidence (content_sentiment (example_unit ''Positive'' 0)) = 0
   \<and> cs_confidence (content_sentiment (example_unit ''Negative'' 0)) = 0
   \<and> net_sentiment_score (create_from_articles () ''Gold'' ''commodity''
        [example_unit ''Positive'' 0, example_unit ''Negative'' 0] 1) = 0
   \<and> market_signal (create_from_articles () ''Gold'' ''commodity''
        [example_unit ''Positive'' 0, example_unit ''Negative'' 0] 1) = ''NEUTRAL''"
  using aggregation_zero_weight [of "()" "''Gold''" "''commodity''" 1
      "[example_unit ''Positive'' 0, example_unit ''Negative'' 0]"]
  by (simp add: example_unit_def)

text \<open>
  C5 (witness): a Positive unit of confidence 0.9 and a Negative one of confidence 0.5.
\<close>

theorem net_score_bounded_witness:
  "cs_confidence (content_sentiment (example_unit ''Positive'' (9/10))) = 9 / 10
   \<and> cs_confidence (content_sentiment (example_unit ''Negative'' (1/2))) = 1 / 2
   \<and> -1 \<le> calculate_net_sentiment_score [example_unit ''Positive'' (9/10), example_unit ''Negative'' (1/2)]
   \<and> calculate_net_sentiment_score [example_unit ''Positive'' (9/10), example_unit ''Negative'' (1/2)] \<le> 1"
  using net_score_bounded [of "[example_unit ''Positive'' (9/10), example_unit ''Negative'' (1/2)]"]
  by (simp add: example_unit_def)

lemma dedup_loop_acc:
  "dedup_loop xs su st acc = acc @ dedup_loop xs su st []"
proof (induction xs arbitrary: su st acc)
  case Nil
  then show ?case by simp
next
  case (Cons a xs)
  show ?case
    using Cons.IH [of su st acc]
      Cons.IH [of "insert (url a) su" "insert (strip (lower (title a))) st" "acc @ [a]"]
      Cons.IH [of "insert (url a) su" "insert (strip (lower (title a))) st" "[a]"]
    by (simp add: Let_def)
qed

lemma dedup_loop_Cons:
  "dedup_loop (a # xs) su st [] =
     (if url a \<in> su \<or> norm_title a \<in> st then dedup_loop xs su st []
      else a # dedup_loop xs (insert (url a) su) (insert (norm_title a) st) [])"
  using dedup_loop_acc [of xs "insert (url a) su" "insert (norm_title a) st" "[a]"]
  by (simp add: Let_def norm_title_def)

lemma dedup_loop_output:
  "distinct (map url (dedup_loop xs su st [])) \<and>
   set (map url (dedup_loop xs su st [])) \<inter> su = {} \<and>
   distinct (map norm_title (dedup_loop xs su st [])) \<and>
   set (map norm_title (dedup_loop xs su st [])) \<inter> st = {}"
proof (induction xs arbitrary: su st)
  case Nil
  then show ?case by simp
next
  case (Cons a xs)
  show ?case
  proof (cases "url a \<in> su \<or> norm_title a \<in> st")
    case True
    then show ?thesis using Cons.IH [of su st] by (simp add: dedup_loop_Cons del: dedup_loop.simps)
  next
    case False
    then show ?thesis
      using Cons.IH [of "insert (url a) su" "insert (norm_title a) st"]
      by (auto simp: dedup_loop_Cons simp del: dedup_loop.simps)
  qed
qed

lemma dedup_loop_fixed:
  "distinct (map url ys) \<Longrightarrow> set (map url ys) \<inter> su = {} \<Longrightarrow>
   distinct (map norm_title ys) \<Longrightarrow> set (map norm_title ys) \<inter> st = {} \<Longrightarrow>
   dedup_loop ys su st [] = ys"
proof (induction ys arbitrary: su st)
  case Nil
  then show ?case by simp
next
  case (Cons a ys)
  have "dedup_loop ys (insert (url a) su) (insert (norm_title a) st) [] = ys"
    using Cons.prems by (intro Cons.IH) auto
  moreover have "url a \<notin> su" "norm_title a \<notin> st" using Cons.prems by auto
  ultimately show ?case by (simp add: dedup_loop_Cons del: dedup_loop.simps)
qed

text \<open>
  C9: \<open>deduplicate_articles\<close> applied to its own output returns that output; the output
  has pairwise distinct URLs and pairwise distinct normalized titles.
\<close>

theorem deduplicate_articles_idempotent:
  "deduplicate_articles (deduplicate_articles xs) = deduplicate_articles xs
   \<and> distinct (map url (deduplicate_articles xs))
   \<and> distinct (map (\<lambda>a. strip (lower (title a))) (deduplicate_articles xs))"
proof -
  have out: "distinct (map url (dedup_loop xs {} {} [])) \<and>
     distinct (map norm_title (dedup_loop xs {} {} []))"
    using dedup_loop_output [of xs "{}" "{}"] by simp
  then have "dedup_loop (dedup_loop xs {} {} []) {} {} [] = dedup_loop xs {} {} []"
    by (intro dedup_loop_fixed) simp_all
  moreover have "map norm_title = map (\<lambda>a. strip (lower (title a)))"
    by (simp add: norm_title_def [abs_def])
  ultimately show ?thesis using out by (simp add: deduplicate_articles_def)
qed

lemma gather_entries_loop_inv:
  assumes "distinct (map e_link raw)" "Some ` ul = set (map e_link raw)"
  shows "distinct (map e_link (snd (snd (gather_entries_loop es (ul, raw))))) \<and>
         Some ` fst (snd (gather_entries_loop es (ul, raw))) =
           set (map e_link (snd (snd (gather_entries_loop es (ul, raw)))))"
  using assms
proof (induction es arbitrary: ul raw)
  case Nil
  then show ?case by simp
next
  case (Cons e es)
  show ?case
  proof (cases "e_link e")
    case None
    then show ?thesis using Cons.prems by simp
  next
    case (Some l)
    show ?thesis
    proof (cases "l \<in> ul")
      case True
      then show ?thesis using Some Cons by simp
    next
      case False
      have "Some l \<notin> set (map e_link raw)" using False Cons.prems(2) by auto
      then have "distinct (map e_link (raw @ [e]))"
        and "Some ` insert l ul = set (map e_link (raw @ [e]))"
        using Some Cons.prems by auto
      then show ?thesis using Some False Cons.IH [of "raw @ [e]" "insert l ul"] by simp
    qed
  qed
qed

lemma gather_loop_inv:
  assumes "distinct (map e_link (snd st))" "Some ` fst st = set (map e_link (snd st))"
  shows "distinct (map e_link (snd (gather_loop feed n qs st))) \<and>
         Some ` fst (gather_loop feed n qs st) = set (map e_link (snd (gather_loop feed n qs st)))"
  using assms
proof (induction qs arbitrary: st)
  case Nil
  then show ?case by simp
next
  case (Cons q qs)
  show ?case
  proof (cases "feed q")
    case (Inl e)
    then show ?thesis using Cons by simp
  next
    case (Inr entries)
    obtain ul raw where st: "st = (ul, raw)" by (cases st)
    have "distinct (map e_link (snd (snd (gather_entries_loop (take n entries) st)))) \<and>
         Some ` fst (snd (gather_entries_loop (take n entries) st)) =
           set (map e_link (snd (snd (gather_entries_loop (take n entries) st))))"
      unfolding st using Cons.prems gather_entries_loop_inv [of raw ul "take n entries"]
      by (simp add: st)
    then show ?thesis using Inr Cons.IH by simp
  qed
qed

lemma dedup_by_link_image: "e_link ` set (dedup_by_link xs) = e_link ` set xs"
  by (induction xs rule: dedup_by_link.induct) auto

lemma dedup_by_link_links:
  "set (map e_link (dedup_by_link xs)) = set (map e_link xs)"
  by (simp add: dedup_by_link_image)

lemma dedup_by_link_distinct: "distinct (map e_link (dedup_by_link xs))"
proof (induction xs rule: dedup_by_link.induct)
  case 1
  then show ?case by simp
next
  case (2 e es)
  have "e_link e \<notin> e_link ` set (filter (\<lambda>x. e_link x \<noteq> e_link e) es)" by auto
  then have "e_link e \<notin> e_link ` set (dedup_by_link (filter (\<lambda>x. e_link x \<noteq> e_link e) es))"
    unfolding dedup_by_link_image .
  then show ?case using 2 by simp
qed

lemma dedup_by_link_append:
  "dedup_by_link (xs @ ys) =
     dedup_by_link xs @ dedup_by_link (filter (\<lambda>x. e_link x \<notin> set (map e_link xs)) ys)"
proof (induction xs arbitrary: ys rule: dedup_by_link.induct)
  case 1
  then show ?case by simp
next
  case (2 e es)
  let ?es = "filter (\<lambda>x. e_link x \<noteq> e_link e) es"
  let ?ys = "filter (\<lambda>x. e_link x \<noteq> e_link e) ys"
  have "filter (\<lambda>x. e_link x \<notin> set (map e_link ?es)) ?ys =
        filter (\<lambda>x. e_link x \<notin> set (map e_link (e # es))) ys"
    unfolding filter_filter by (rule filter_cong) auto
  then show ?case using "2.IH" [of ?ys] by simp
qed

lemma gather_entries_loop_result:
  "snd (gather_entries_loop es (ul, raw)) =
     (ul \<union> {l. Some l \<in> set (map e_link (takeWhile (\<lambda>e. e_link e \<noteq> None) es))},
      raw @ dedup_by_link (filter (\<lambda>e. e_link e \<notin> Some ` ul)
                              (takeWhile (\<lambda>e. e_link e \<noteq> None) es)))"
proof (induction es arbitrary: ul raw)
  case Nil
  then show ?case by simp
next
  case (Cons e es)
  let ?tw = "takeWhile (\<lambda>e. e_link e \<noteq> None) es"
  show ?case
  proof (cases "e_link e")
    case None
    then show ?thesis by simp
  next
    case (Some l)
    show ?thesis
    proof (cases "l \<in> ul")
      case True
      then show ?thesis using Some Cons.IH [of ul raw] by auto
    next
      case False
      have f: "filter (\<lambda>x. e_link x \<noteq> Some l) (filter (\<lambda>e. e_link e \<notin> Some ` ul) ?tw)
             = filter (\<lambda>e. e_link e \<notin> Some ` insert l ul) ?tw"
        unfolding filter_filter by (rule filter_cong) auto
      show ?thesis using Some False Cons.IH [of "insert l ul" "raw @ [e]"] f by auto
    qed
  qed
qed

lemma Some_image_collect:
  assumes "None \<notin> S"
  shows "Some ` {l. Some l \<in> S} = S"
proof
  show "Some ` {l. Some l \<in> S} \<subseteq> S" by blast
  show "S \<subseteq> Some ` {l. Some l \<in> S}"
  proof
    fix x assume x: "x \<in> S"
    then obtain l where "x = Some l" using assms by (cases x) auto
    then show "x \<in> Some ` {l. Some l \<in> S}" using x by blast
  qed
qed

lemma gather_loop_result:
  "gather_loop feed n qs (ul, raw) =
     (ul \<union> {l. Some l \<in> set (map e_link (candidate_entries feed n qs))},
      raw @ dedup_by_link (filter (\<lambda>e. e_link e \<notin> Some ` ul) (candidate_entries feed n qs)))"
proof (induction qs arbitrary: ul raw)
  case Nil
  then show ?case by (simp add: candidate_entries_def)
next
  case (Cons q qs)
  show ?case
  proof (cases "feed q")
    case (Inl e)
    have "candidate_entries feed n (q # qs) = candidate_entries feed n qs"
      using Inl by (simp add: candidate_entries_def)
    moreover have "gather_loop feed n (q # qs) (ul, raw) = gather_loop feed n qs (ul, raw)"
      using Inl by simp
    ultimately show ?thesis using Cons.IH [of ul raw] by (simp only:)
  next
    case (Inr entries)
    let ?c1 = "takeWhile (\<lambda>e. e_link e \<noteq> None) (take n entries)"
    let ?rest = "candidate_entries feed n qs"
    let ?A = "{l. Some l \<in> set (map e_link ?c1)}"
    let ?F = "filter (\<lambda>e. e_link e \<notin> Some ` ul)"
    have c: "candidate_entries feed n (q # qs) = ?c1 @ ?rest"
      using Inr by (simp add: candidate_entries_def)
    have "None \<notin> set (map e_link ?c1)"
    proof
      assume "None \<in> set (map e_link ?c1)"
      then obtain x where x: "x \<in> set ?c1" and n: "e_link x = None" by force
      have "e_link x \<noteq> None" using set_takeWhileD [OF x] by blast
      then show False using n by blast
    qed
    then have A: "Some ` ?A = set (map e_link ?c1)" by (rule Some_image_collect)
    have links: "Some ` (ul \<union> ?A) = Some ` ul \<union> set (map e_link ?c1)"
      by (simp only: image_Un A)
    have f: "filter (\<lambda>x. e_link x \<notin> set (map e_link (?F ?c1))) (?F ?rest)
           = filter (\<lambda>e. e_link e \<notin> Some ` (ul \<union> ?A)) ?rest"
      unfolding filter_filter links by (rule filter_cong) auto
    have step: "gather_loop feed n (q # qs) (ul, raw) =
        gather_loop feed n qs (ul \<union> ?A, raw @ dedup_by_link (?F ?c1))"
      using Inr by (simp add: gather_entries_loop_result)
    have s1: "(ul \<union> ?A) \<union> {l. Some l \<in> set (map e_link ?rest)}
        = ul \<union> {l. Some l \<in> set (map e_link (?c1 @ ?rest))}"
      by auto
    have s2: "(raw @ dedup_by_link (?F ?c1)) @
          dedup_by_link (filter (\<lambda>e. e_link e \<notin> Some ` (ul \<union> ?A)) ?rest)
        = raw @ dedup_by_link (?F (?c1 @ ?rest))"
      unfolding filter_append dedup_by_link_append f by simp
    show ?thesis
      unfolding step c Cons.IH [of "ul \<union> ?A" "raw @ dedup_by_link (?F ?c1)"] s1 s2 ..
  qed
qed

lemma submitted_entries_complete:
  "submitted_entries feed n queries = dedup_by_link (candidate_entries feed n queries)"
  by (simp add: submitted_entries_def gather_loop_result)

lemma candidate_entries_all_links:
  assumes "\<forall>e \<in> set (capped_entries feed n queries). e_link e \<noteq> None"
  shows "candidate_entries feed n queries = capped_entries feed n queries"
  using assms
proof (induction queries)
  case Nil
  then show ?case by (simp add: candidate_entries_def capped_entries_def)
next
  case (Cons q qs)
  have rest: "candidate_entries feed n qs = capped_entries feed n qs"
    using Cons by (simp add: capped_entries_def)
  show ?case
  proof (cases "feed q")
    case (Inl e)
    then show ?thesis using rest by (simp add: candidate_entries_def capped_entries_def)
  next
    case (Inr entries)
    have "\<forall>e \<in> set (take n entries). e_link e \<noteq> None"
      using Cons.prems Inr by (simp add: capped_entries_def)
    then have "takeWhile (\<lambda>e. e_link e \<noteq> None) (take n entries) = take n entries"
      by (simp add: takeWhile_eq_all_conv)
    then show ?thesis using rest Inr by (simp add: candidate_entries_def capped_entries_def)
  qed
qed

text \<open>
  C6: the entries submitted to the worker pool are the final \<open>raw_entries\<close> of the pre-pass
  over all queries, and they are the deduplication by link of the candidates of all queries:
  every candidate link is submitted, exactly once, with the first entry that carries it. When
  every entry the feeds returned within the cap has a link, the candidates are all of these
  entries. The set of seen links the pre-pass ends with is the set of submitted links; the
  worker is applied to the submitted entries only.
\<close>

theorem dedup_before_fan_out:
  "distinct (map e_link (submitted_entries feed n queries))
   \<and> None \<notin> set (map e_link (submitted_entries feed n queries))
   \<and> Some ` fst (gather_loop feed n queries ({}, [])) = set (map e_link (submitted_entries feed n queries))
   \<and> fetch_articles feed n worker queries = List.map_filter worker (submitted_entries feed n queries)
   \<and> submitted_entries feed n queries = dedup_by_link (candidate_entries feed n queries)
   \<and> set (map e_link (submitted_entries feed n queries))
       = set (map e_link (candidate_entries feed n queries))
   \<and> ((\<forall>e \<in> set (capped_entries feed n queries). e_link e \<noteq> None) \<longrightarrow>
        submitted_entries feed n queries = dedup_by_link (capped_entries feed n queries)
        \<and> set (map e_link (submitted_entries feed n queries))
            = set (map e_link (capped_entries feed n queries)))"
proof -
  have inv: "distinct (map e_link (submitted_entries feed n queries)) \<and>
     Some ` fst (gather_loop feed n queries ({}, [])) = set (map e_link (submitted_entries feed n queries))"
    using gather_loop_inv [of "({}, [])" feed n queries] by (simp add: submitted_entries_def)
  have "None \<notin> Some ` fst (gather_loop feed n queries ({}, []))" by blast
  then have none: "None \<notin> set (map e_link (submitted_entries feed n queries))"
    using inv by simp
  have old: "distinct (map e_link (submitted_entries feed n queries))
   \<and> None \<notin> set (map e_link (submitted_entries feed n queries))
   \<and> Some ` fst (gather_loop feed n queries ({}, [])) = set (map e_link (submitted_entries feed n queries))
   \<and> fetch_articles feed n worker queries = List.map_filter worker (submitted_entries feed n queries)"
    using inv none by (simp add: fetch_articles_def)
  have eq: "submitted_entries feed n queries = dedup_by_link (candidate_entries feed n queries)"
    by (rule submitted_entries_complete)
  have links: "set (map e_link (submitted_entries feed n queries))
       = set (map e_link (candidate_entries feed n queries))"
    unfolding eq by (rule dedup_by_link_links)
  have capped: "submitted_entries feed n queries = dedup_by_link (capped_entries feed n queries)
        \<and> set (map e_link (submitted_entries feed n queries))
            = set (map e_link (capped_entries feed n queries))"
    if "\<forall>e \<in> set (capped_entries feed n queries). e_link e \<noteq> None"
    using eq links candidate_entries_all_links [OF that] by (simp only:)
  show ?thesis using old eq links capped by blast
qed

lemma example_capped:
  "capped_entries example_feed 5 [''gold market'', ''gold news'', ''gold price''] =
     [example_entry ''Gold surges'' ''https://news.example.com/a'',
      example_entry ''Gold steadies'' ''https://news.example.com/b'',
      example_entry ''Gold steadies again'' ''https://news.example.com/b'',
      example_entry ''Gold slips'' ''https://news.example.com/c'']"
  by (simp add: capped_entries_def example_feed_def)

text \<open>
  C6 (witness): three queries, one with a failing feed; the two feeds share a link, whose
  second entry is dropped.
\<close>

theorem dedup_before_fan_out_witness:
  "capped_entries example_feed 5 [''gold market'', ''gold news'', ''gold price''] =
     [example_entry ''Gold surges'' ''https://news.example.com/a'',
      example_entry ''Gold steadies'' ''https://news.example.com/b'',
      example_entry ''Gold steadies again'' ''https://news.example.com/b'',
      example_entry ''Gold slips'' ''https://news.example.com/c'']
   \<and> submitted_entries example_feed 5 [''gold market'', ''gold news'', ''gold price''] =
     [example_entry ''Gold surges'' ''https://news.example.com/a'',
      example_entry ''Gold steadies'' ''https://news.example.com/b'',
      example_entry ''Gold slips'' ''https://news.example.com/c'']"
proof -
  have h: "\<forall>e \<in> set (capped_entries example_feed 5 [''gold market'', ''gold news'', ''gold price'']).
             e_link e \<noteq> None"
    unfolding example_capped by (simp add: example_entry_def)
  have "submitted_entries example_feed 5 [''gold market'', ''gold news'', ''gold price''] =
      dedup_by_link (capped_entries example_feed 5 [''gold market'', ''gold news'', ''gold price''])"
    using dedup_before_fan_out
      [where feed = example_feed and n = 5
         and queries = "[''gold market'', ''gold news'', ''gold price'']"] h
    by blast
  then show ?thesis
    unfolding example_capped by (simp add: example_entry_def)
qed

lemma argmax_loop_greatest:
  assumes "length pre = i" "best_i < i" "pre ! best_i = best" "\<forall>x \<in> set pre. x \<le> best"
  shows "argmax_loop ps i (best_i, best) < length (pre @ ps) \<and>
         (\<forall>x \<in> set (pre @ ps). x \<le> (pre @ ps) ! argmax_loop ps i (best_i, best))"
  using assms
proof (induction ps arbitrary: pre i best_i best)
  case Nil
  then show ?case by simp
next
  case (Cons p ps)
  show ?case
  proof (cases "p > best")
    case True
    have "argmax_loop ps (Suc i) (i, p) < length ((pre @ [p]) @ ps) \<and>
         (\<forall>x \<in> set ((pre @ [p]) @ ps). x \<le> ((pre @ [p]) @ ps) ! argmax_loop ps (Suc i) (i, p))"
    proof (rule Cons.IH)
      show "\<forall>x\<in>set (pre @ [p]). x \<le> p" using True Cons.prems(4) by fastforce
    qed (use Cons.prems in \<open>simp_all add: nth_append\<close>)
    then show ?thesis using True by simp
  next
    case False
    have "argmax_loop ps (Suc i) (best_i, best) < length ((pre @ [p]) @ ps) \<and>
         (\<forall>x \<in> set ((pre @ [p]) @ ps). x \<le> ((pre @ [p]) @ ps) ! argmax_loop ps (Suc i) (best_i, best))"
    proof (rule Cons.IH)
      show "\<forall>x\<in>set (pre @ [p]). x \<le> best" using False Cons.prems(4) by fastforce
    qed (use Cons.prems in \<open>simp_all add: nth_append\<close>)
    then show ?thesis using False by simp
  qed
qed

lemma argmax_greatest:
  assumes "argmax ps = Inr i"
  shows "i < length ps \<and> ps ! i = Max (set ps)"
proof -
  obtain p rest where ps: "ps = p # rest" and i: "i = argmax_loop rest 1 (0, p)"
    using assms by (auto simp: argmax_def split: list.splits)
  have "argmax_loop rest 1 (0, p) < length ([p] @ rest) \<and>
         (\<forall>x \<in> set ([p] @ rest). x \<le> ([p] @ rest) ! argmax_loop rest 1 (0, p))"
    by (rule argmax_loop_greatest) simp_all
  then have lt: "i < length ps" and ge: "\<forall>x \<in> set ps. x \<le> ps ! i"
    using ps i by simp_all
  have "Max (set ps) = ps ! i"
    using lt ge by (intro Max_eqI) auto
  then show ?thesis using lt by simp
qed

lemma analyze_content_try_success:
  assumes ok: "analyze_content_try classify m text = Inr c"
    and nonblank: "\<not> (text = [] \<or> strip text = [])"
  shows "\<exists>ps i. classify (truncate_text m text) = Inr ps \<and> argmax ps = Inr i \<and> i < 3 \<and>
           c = \<lparr> cs_confidence = ps ! i, cs_label = finbert_labels ! i,
                 cs_probabilities = zip finbert_labels ps \<rparr>"
  using assms
  by (auto simp: analyze_content_try_def finbert_labels_def split: sum.splits if_splits)

lemma analyze_content_cases:
  "analyze_content classify m text =
     (if text = [] \<or> strip text = [] \<or> (\<exists>e. analyze_content_try classify m text = Inl e)
      then Inr neutral_fallback else analyze_content_try classify m text)"
  by (auto simp: analyze_content_def analyze_content_try_def split: sum.splits)

lemma neutral_fallback_invariants:
  "\<bar>sum_list (map snd (cs_probabilities neutral_fallback)) - 1\<bar> \<le> 1 / 100 \<and>
   map_of (cs_probabilities neutral_fallback) (cs_label neutral_fallback) =
     Some (Max (set (map snd (cs_probabilities neutral_fallback))))"
  by (simp add: neutral_fallback_def)

lemma classified_invariants:
  assumes "argmax ps = Inr i" "length ps = 3"
    and c: "c = \<lparr> cs_confidence = ps ! i, cs_label = finbert_labels ! i,
                 cs_probabilities = zip finbert_labels ps \<rparr>"
  shows "sum_list (map snd (cs_probabilities c)) = sum_list ps \<and>
     map_of (cs_probabilities c) (cs_label c) = Some (Max (set (map snd (cs_probabilities c)))) \<and>
     map_of (cs_probabilities c) (cs_label c) = Some (cs_confidence c)"
proof -
  have len: "length finbert_labels = length ps" using assms(2) by (simp add: finbert_labels_def)
  have d: "distinct finbert_labels" by (simp add: finbert_labels_def)
  have i: "i < length ps" "ps ! i = Max (set ps)" using argmax_greatest [OF assms(1)] by simp_all
  have snd: "map snd (zip finbert_labels ps) = ps" using len by (rule map_snd_zip)
  have look: "map_of (zip finbert_labels ps) (finbert_labels ! i) = Some (ps ! i)"
    using len d i(1) by (rule map_of_zip_nth)
  show ?thesis unfolding c by (simp add: snd look i(2))
qed

text \<open>
  C2, as amended: with a classifier whose rows have three entries summing to 1 within 0.01,
  every result of \<open>analyze_content\<close> has probabilities summing to 1 within 0.01 and a label
  whose probability is the greatest one. On the classifier path the confidence is the
  probability of the label; on blank input and on a failure the result is the fallback, whose
  confidence is 0.33 while the probability of its label is 0.34.
\<close>

theorem content_score_invariants:
  assumes softmax: "\<forall>t ps. classify t = Inr ps \<longrightarrow> length ps = 3 \<and> \<bar>sum_list ps - 1\<bar> \<le> 1 / 100"
  shows "\<exists>c. analyze_content classify m text = Inr c
     \<and> \<bar>sum_list (map snd (cs_probabilities c)) - 1\<bar> \<le> 1 / 100
     \<and> map_of (cs_probabilities c) (cs_label c) = Some (Max (set (map snd (cs_probabilities c))))
     \<and> (if text = [] \<or> strip text = [] \<or> (\<exists>e. analyze_content_try classify m text = Inl e)
        then c = neutral_fallback \<and> cs_confidence c = 33 / 100
               \<and> map_of (cs_probabilities c) (cs_label c) = Some (34 / 100)
        else map_of (cs_probabilities c) (cs_label c) = Some (cs_confidence c))"
proof (cases "text = [] \<or> strip text = [] \<or> (\<exists>e. analyze_content_try classify m text = Inl e)")
  case True
  then have "analyze_content classify m text = Inr neutral_fallback"
    by (simp add: analyze_content_cases)
  moreover have "cs_confidence neutral_fallback = 33 / 100 \<and>
      map_of (cs_probabilities neutral_fallback) (cs_label neutral_fallback) = Some (34 / 100)"
    by (simp add: neutral_fallback_def)
  ultimately show ?thesis using True neutral_fallback_invariants by simp
next
  case False
  then obtain c where c: "analyze_content_try classify m text = Inr c"
    by (cases "analyze_content_try classify m text") auto
  have eq: "analyze_content classify m text = Inr c"
    using False c by (simp add: analyze_content_cases)
  obtain ps i where ps: "classify (truncate_text m text) = Inr ps" "argmax ps = Inr i"
      "c = \<lparr> cs_confidence = ps ! i, cs_label = finbert_labels ! i,
             cs_probabilities = zip finbert_labels ps \<rparr>"
    using analyze_content_try_success [OF c] False by blast
  have len: "length ps = 3" and sum: "\<bar>sum_list ps - 1\<bar> \<le> 1 / 100"
    using softmax ps(1) by blast+
  have inv: "sum_list (map snd (cs_probabilities c)) = sum_list ps \<and>
     map_of (cs_probabilities c) (cs_label c) = Some (Max (set (map snd (cs_probabilities c)))) \<and>
     map_of (cs_probabilities c) (cs_label c) = Some (cs_confidence c)"
    using ps(2) len ps(3) by (rule classified_invariants)
  have s: "\<bar>sum_list (map snd (cs_probabilities c)) - 1\<bar> \<le> 1 / 100"
    using inv sum by simp
  have i2: "map_of (cs_probabilities c) (cs_label c) = Some (Max (set (map snd (cs_probabilities c))))"
    and i3: "map_of (cs_probabilities c) (cs_label c) = Some (cs_confidence c)"
    using inv by blast+
  have branch: "(if text = [] \<or> strip text = [] \<or> (\<exists>e. analyze_content_try classify m text = Inl e)
        then c = neutral_fallback \<and> cs_confidence c = 33 / 100
               \<and> map_of (cs_probabilities c) (cs_label c) = Some (34 / 100)
        else map_of (cs_probabilities c) (cs_label c) = Some (cs_confidence c))"
    using i3 by (subst if_not_P [OF False])
  show ?thesis using eq s i2 branch by blast
qed

text \<open>
  C2 (witness): the classifier row of the integration test.
\<close>

theorem content_score_invariants_witness:
  "\<exists>c. analyze_content example_classifier MAX_TEXT_LENGTH ''Gold market shows strong bullish momentum.'' = Inr c
     \<and> \<bar>sum_list (map snd (cs_probabilities c)) - 1\<bar> \<le> 1 / 100
     \<and> map_of (cs_probabilities c) (cs_label c) = Some (Max (set (map snd (cs_probabilities c))))
     \<and> map_of (cs_probabilities c) (cs_label c) = Some (cs_confidence c)
     \<and> cs_label c = ''Positive''"
proof -
  have h: "\<forall>t ps. example_classifier t = Inr ps \<longrightarrow> length ps = 3 \<and> \<bar>sum_list ps - 1\<bar> \<le> 1 / 100"
    by (auto simp: example_classifier_def)
  have e: "analyze_content example_classifier MAX_TEXT_LENGTH ''Gold market shows strong bullish momentum.''
     = Inr \<lparr> cs_confidence = 85 / 100, cs_label = ''Positive'',
             cs_probabilities = [(''Negative'', 10 / 100), (''Neutral'', 5 / 100), (''Positive'', 85 / 100)] \<rparr>"
    by (simp add: analyze_content_def analyze_content_try_def example_classifier_def
        MAX_TEXT_LENGTH_def truncate_text_def strip_def isspace_def argmax_def finbert_labels_def)
  show ?thesis
    using content_score_invariants [OF h, of MAX_TEXT_LENGTH "''Gold market shows strong bullish momentum.''"] e
    by simp
qed

text \<open>
  C2 (counterexample): on the empty text the result is the fallback, and its confidence is not the
  probability of its label.
\<close>

theorem fallback_confidence_counterexample:
  "analyze_content failing_classifier MAX_TEXT_LENGTH [] = Inr neutral_fallback
   \<and> map_of (cs_probabilities neutral_fallback) (cs_label neutral_fallback)
       \<noteq> Some (cs_confidence neutral_fallback)"
  by (simp add: analyze_content_def analyze_content_try_def neutral_fallback_def)

text \<open>
  C7: \<open>analyze_content\<close> returns a value on every text and for every classifier; on an
  empty or blank text, and when the classifier raises, the value is the Neutral fallback with
  confidence 0.33 and probabilities Negative 0.33, Neutral 0.34, Positive 0.33.
\<close>

theorem analyze_content_never_fails:
  "(\<exists>c. analyze_content classify m text = Inr c)
   \<and> ((text = [] \<or> strip text = [] \<or> (\<exists>e. classify (truncate_text m text) = Inl e)) \<longrightarrow>
        analyze_content classify m text = Inr neutral_fallback)
   \<and> neutral_fallback =
       \<lparr> cs_confidence = 33 / 100, cs_label = ''Neutral'',
         cs_probabilities = [(''Negative'', 33 / 100), (''Neutral'', 34 / 100), (''Positive'', 33 / 100)] \<rparr>"
  by (auto simp: analyze_content_def analyze_content_try_def neutral_fallback_def split: sum.splits)

text \<open>
  C7 (witness): a blank text, and a classifier that raises.
\<close>

theorem analyze_content_never_fails_witness:
  "strip '' '' = []
   \<and> analyze_content example_classifier MAX_TEXT_LENGTH '' '' = Inr neutral_fallback
   \<and> failing_classifier (truncate_text MAX_TEXT_LENGTH ''Gold market shows strong bullish momentum.'')
       = Inl (ClassifierError ''model unavailable'')
   \<and> analyze_content failing_classifier MAX_TEXT_LENGTH ''Gold market shows strong bullish momentum.''
       = Inr neutral_fallback"
proof -
  have b: "strip '' '' = []" by (simp add: strip_def isspace_def)
  have f: "failing_classifier (truncate_text MAX_TEXT_LENGTH ''Gold market shows strong bullish momentum.'')
       = Inl (ClassifierError ''model unavailable'')"
    by (simp add: failing_classifier_def)
  show ?thesis
    using b f analyze_content_never_fails [of example_classifier MAX_TEXT_LENGTH "'' ''"]
      analyze_content_never_fails [of failing_classifier MAX_TEXT_LENGTH
        "''Gold market shows strong bullish momentum.''"]
    by auto
qed

lemma create_from_articles_fields:
  "create_from_articles now q c arts pt =
     \<lparr> timestamp = now, query = q, category = c, total_articles = int (length arts),
       sentiment_distribution = calculate_sentiment_distribution arts,
       net_sentiment_score = calculate_net_sentiment_score arts,
       market_signal = determine_market_signal (calculate_net_sentiment_score arts),
       articles = arts, processing_time = pt \<rparr>"
  by (simp add: create_from_articles_def AnalysisReport_init_def Let_def)

lemma map_entry_keys: "map fst (AList.map_entry k f d) = map fst d"
  by (induction d) auto

lemma map_entry_sum:
  "k \<in> set (map fst d) \<Longrightarrow>
   sum_list (map snd (AList.map_entry k (\<lambda>n. n + 1) d)) = sum_list (map snd d) + (1::int)"
  by (induction d) auto

lemma distribution_loop_sum:
  "\<forall>a \<in> set arts. cs_label (content_sentiment a) \<in> set (map fst d) \<Longrightarrow>
   sum_list (map snd (distribution_loop arts d)) = sum_list (map snd d) + int (length arts)"
proof (induction arts arbitrary: d)
  case Nil
  then show ?case by simp
next
  case (Cons a arts)
  let ?l = "cs_label (content_sentiment a)"
  let ?d = "AList.map_entry ?l (\<lambda>n. n + 1) d"
  have k: "?l \<in> set (map fst d)" using Cons.prems by simp
  have "\<forall>a \<in> set arts. cs_label (content_sentiment a) \<in> set (map fst ?d)"
    using Cons.prems by (simp only: map_entry_keys) simp
  then have "sum_list (map snd (distribution_loop arts ?d)) = sum_list (map snd ?d) + int (length arts)"
    by (rule Cons.IH)
  then show ?case using k map_entry_sum [OF k] by (simp add: Let_def)
qed

lemma validate_labels:
  "AnalyzedArticle_validate a \<Longrightarrow>
   cs_label (content_sentiment a) \<in> {''Positive'', ''Negative'', ''Neutral''}"
  by (simp add: AnalyzedArticle_validate_def ContentSentiment_validate_def split: if_splits)

text \<open>
  C3, as amended: a report that \<open>validate\<close> accepts has exactly the three labels as distribution
  keys and as many articles as total_articles says; \<open>validate\<close> does not compare the sum of
  the distribution with total_articles, but on a report built by \<open>create_from_articles\<close> that it
  accepts the two are equal.
\<close>

theorem validate_accepts_only:
  "(AnalysisReport_validate r \<longrightarrow>
      set (map fst (sentiment_distribution r)) = {''Positive'', ''Negative'', ''Neutral''}
      \<and> int (length (articles r)) = total_articles r)
   \<and> (AnalysisReport_validate (create_from_articles now q c arts pt) \<longrightarrow>
      sum_list (map snd (sentiment_distribution (create_from_articles now q c arts pt)))
        = total_articles (create_from_articles now q c arts pt))"
proof -
  have a: "set (map fst (sentiment_distribution r)) = {''Positive'', ''Negative'', ''Neutral''}
      \<and> int (length (articles r)) = total_articles r" if "AnalysisReport_validate r"
    using that by (simp add: AnalysisReport_validate_def split: if_splits)
  have b: "sum_list (map snd (sentiment_distribution (create_from_articles now q c arts pt)))
        = total_articles (create_from_articles now q c arts pt)"
    if v: "AnalysisReport_validate (create_from_articles now q c arts pt)"
  proof -
    have "list_all AnalyzedArticle_validate arts"
      using v
      by (simp add: AnalysisReport_validate_def create_from_articles_fields split: if_splits)
    then have "\<forall>a \<in> set arts. cs_label (content_sentiment a)
        \<in> set (map fst [(''Positive'', 0::int), (''Negative'', 0), (''Neutral'', 0)])"
      using validate_labels by (auto simp: list_all_iff)
    then have "sum_list (map snd (distribution_loop arts [(''Positive'', 0), (''Negative'', 0), (''Neutral'', 0)]))
        = sum_list (map snd [(''Positive'', 0::int), (''Negative'', 0), (''Neutral'', 0)]) + int (length arts)"
      by (rule distribution_loop_sum)
    then show ?thesis
      by (simp add: create_from_articles_fields calculate_sentiment_distribution_def)
  qed
  show ?thesis using a b by blast
qed

lemma example_article_valid: "AnalyzedArticle_validate example_analyzed_article"
  by (simp add: AnalyzedArticle_validate_def Article_validate_def HeadlineSentiment_validate_def
      ContentSentiment_validate_def example_analyzed_article_def example_article_def
      strip_def isspace_def startswith_def)

lemma example_report_eq:
  "example_report =
     \<lparr> timestamp = ''2024-01-01T12:00:00'', query = ''Gold'', category = ''commodity'',
       total_articles = 1,
       sentiment_distribution = [(''Positive'', 1), (''Negative'', 0), (''Neutral'', 0)],
       net_sentiment_score = 1, market_signal = ''BULLISH'',
       articles = [example_analyzed_article], processing_time = 52 / 10 \<rparr>"
  by (simp add: example_report_def create_from_articles_fields
      calculate_sentiment_distribution_def calculate_net_sentiment_score_def
      determine_market_signal_def direction_def example_analyzed_article_def Let_def)

lemma example_report_valid: "AnalysisReport_validate example_report"
  unfolding example_report_eq
  by (simp add: AnalysisReport_validate_def example_article_valid)

text \<open>
  C3 (witness): the report of the integration test.
\<close>

theorem validate_accepts_only_witness:
  "AnalysisReport_validate example_report
   \<and> set (map fst (sentiment_distribution example_report)) = {''Positive'', ''Negative'', ''Neutral''}
   \<and> int (length (articles example_report)) = total_articles example_report
   \<and> sum_list (map snd (sentiment_distribution example_report)) = total_articles example_report"
  using example_report_valid
    validate_accepts_only [of example_report "''2024-01-01T12:00:00''" "''Gold''" "''commodity''"
      "[example_analyzed_article]" "52 / 10"]
  by (simp add: example_report_def)

text \<open>
  C3 (counterexample): a report with distribution sum 5 and total_articles 0 is accepted.
\<close>

theorem validate_sum_counterexample:
  "AnalysisReport_validate inconsistent_report
   \<and> sum_list (map snd (sentiment_distribution inconsistent_report)) \<noteq> total_articles inconsistent_report"
  by (simp add: AnalysisReport_validate_def inconsistent_report_def)

lemma bind_result_Inr: "bind_result (Inr v) f = f v"
  by (simp add: bind_result_def)

lemma getitem_Cons:
  "getitem ((k, v) # d) k' = (if k = k' then Inr v else getitem d k')"
  by (simp add: getitem_def)

lemma collect_results_map_Inr:
  "(\<And>x. x \<in> set xs \<Longrightarrow> f (g x) = Inr x) \<Longrightarrow> collect_results (map (\<lambda>x. f (g x)) xs) = Inr xs"
  by (induction xs) simp_all

lemma typed_dict_float_round_trip:
  "as_typed_dict as_float (JDict (map (\<lambda>(k, p). (k, JFloat p)) ps)) = Inr ps"
proof -
  have "collect_results (map (\<lambda>kv. (case (case kv of (k, p) \<Rightarrow> (k, JFloat p)) of
           (k, v) \<Rightarrow> bind_result (as_float v) (\<lambda>x. Inr (k, x)))) ps) = Inr ps"
    by (rule collect_results_map_Inr [where g = "\<lambda>x. (case x of (k, p) \<Rightarrow> (k, JFloat p))"
          and f = "\<lambda>y. (case y of (k, v) \<Rightarrow> bind_result (as_float v) (\<lambda>x. Inr (k, x)))"])
       (auto simp: bind_result_def as_float_def)
  then show ?thesis
    by (simp add: as_typed_dict_def as_dict_def bind_result_def comp_def)
qed

lemma typed_dict_int_round_trip:
  "as_typed_dict as_int (JDict (map (\<lambda>(k, n). (k, JInt n)) sd)) = Inr sd"
proof -
  have "collect_results (map (\<lambda>kv. (case (case kv of (k, p) \<Rightarrow> (k, JInt p)) of
           (k, v) \<Rightarrow> bind_result (as_int v) (\<lambda>x. Inr (k, x)))) sd) = Inr sd"
    by (rule collect_results_map_Inr [where g = "\<lambda>x. (case x of (k, p) \<Rightarrow> (k, JInt p))"
          and f = "\<lambda>y. (case y of (k, v) \<Rightarrow> bind_result (as_int v) (\<lambda>x. Inr (k, x)))"])
       (auto simp: bind_result_def as_int_def)
  then show ?thesis
    by (simp add: as_typed_dict_def as_dict_def bind_result_def comp_def)
qed

lemma Article_round_trip: "Article_from_dict (Article_to_dict a) = Inr a"
  by (simp add: Article_from_dict_def Article_to_dict_def bind_result_def as_dict_def
      getitem_def as_str_def)

lemma HeadlineSentiment_round_trip:
  "HeadlineSentiment_from_dict (HeadlineSentiment_to_dict h) = Inr h"
  by (simp add: HeadlineSentiment_from_dict_def HeadlineSentiment_to_dict_def bind_result_def
      as_dict_def getitem_def as_str_def as_float_def)

lemma ContentSentiment_round_trip:
  "ContentSentiment_from_dict (ContentSentiment_to_dict c) = Inr c"
proof -
  have "bind_result (getitem [(''confidence'', JFloat (cs_confidence c)), (''label'', JStr (cs_label c)),
            (''probabilities'', JDict (map (\<lambda>(k, p). (k, JFloat p)) (cs_probabilities c)))]
            ''probabilities'') (as_typed_dict as_float) = Inr (cs_probabilities c)"
    by (simp add: getitem_def bind_result_def typed_dict_float_round_trip)
  then show ?thesis
    by (simp add: ContentSentiment_from_dict_def ContentSentiment_to_dict_def bind_result_def
      as_dict_def getitem_def as_str_def as_float_def)
qed

lemma AnalyzedArticle_round_trip:
  "AnalyzedArticle_from_dict (AnalyzedArticle_to_dict a) = Inr a"
  by (simp add: AnalyzedArticle_from_dict_def AnalyzedArticle_to_dict_def bind_result_def
      as_dict_def getitem_def Article_round_trip HeadlineSentiment_round_trip
      ContentSentiment_round_trip)

lemma articles_round_trip:
  "collect_results (map AnalyzedArticle_from_dict (map AnalyzedArticle_to_dict arts)) = Inr arts"
  by (induction arts) (simp_all add: AnalyzedArticle_round_trip)

lemma report_lookups:
  fixes r :: "'ts AnalysisReport" and isoformat :: "'ts \<Rightarrow> string"
  defines "d \<equiv> [(''timestamp'', JStr (isoformat (timestamp r))),
            (''query'', JStr (query r)),
            (''category'', JStr (category r)),
            (''total_articles'', JInt (total_articles r)),
            (''sentiment_distribution'',
               JDict (map (\<lambda>(k, n). (k, JInt n)) (sentiment_distribution r))),
            (''net_sentiment_score'', JFloat (net_sentiment_score r)),
            (''market_signal'', JStr (market_signal r)),
            (''articles'', JList (map AnalyzedArticle_to_dict (articles r))),
            (''processing_time'', JFloat (processing_time r))]"
  shows "getitem d ''timestamp'' = Inr (JStr (isoformat (timestamp r)))"
    and "getitem d ''query'' = Inr (JStr (query r))"
    and "getitem d ''category'' = Inr (JStr (category r))"
    and "getitem d ''total_articles'' = Inr (JInt (total_articles r))"
    and "getitem d ''sentiment_distribution'' = Inr (JDict (map (\<lambda>(k, n). (k, JInt n)) (sentiment_distribution r)))"
    and "getitem d ''net_sentiment_score'' = Inr (JFloat (net_sentiment_score r))"
    and "getitem d ''market_signal'' = Inr (JStr (market_signal r))"
    and "getitem d ''articles'' = Inr (JList (map AnalyzedArticle_to_dict (articles r)))"
    and "getitem d ''processing_time'' = Inr (JFloat (processing_time r))"
  unfolding d_def by (simp_all add: getitem_Cons)

lemma validate_fields:
  assumes "AnalysisReport_validate r"
  shows "set (map fst (sentiment_distribution r)) = {''Positive'', ''Negative'', ''Neutral''}"
    and "int (length (articles r)) = total_articles r"
    and "market_signal r \<in> set [''BULLISH'', ''BEARISH'', ''NEUTRAL'']"
    and "list_all AnalyzedArticle_validate (articles r)"
  using assms by (simp_all add: AnalysisReport_validate_def split: if_splits)

lemma init_id:
  assumes sd: "sentiment_distribution r \<noteq> []" and ms: "market_signal r \<noteq> []"
  shows "AnalysisReport_init (timestamp r) (query r) (category r) (total_articles r)
      (sentiment_distribution r) (Some (net_sentiment_score r)) (market_signal r) (articles r)
      (processing_time r) = r"
  using sd ms by (simp add: AnalysisReport_init_def)

lemma from_dict_to_dict:
  assumes iso: "fromisoformat (isoformat (timestamp r)) = Inr (timestamp r)"
  shows "AnalysisReport_from_dict fromisoformat (AnalysisReport_to_dict isoformat r) =
    Inr (AnalysisReport_init (timestamp r) (query r) (category r) (total_articles r)
      (sentiment_distribution r) (Some (net_sentiment_score r)) (market_signal r) (articles r)
      (processing_time r))"
  unfolding AnalysisReport_from_dict_def AnalysisReport_to_dict_def
  apply (simp only: as_dict_def json.case bind_result_Inr)
  apply (simp only: report_lookups bind_result_Inr)
  apply (simp only: as_str_def json.case bind_result_Inr iso)
  apply (simp only: as_list_def json.case bind_result_Inr articles_round_trip)
  apply (simp only: as_int_def json.case bind_result_Inr typed_dict_int_round_trip)
  apply (simp only: as_optional_float_def as_float_def json.case bind_result_Inr)
  done

lemma validate_nonempty:
  assumes valid: "AnalysisReport_validate r"
  shows "sentiment_distribution r \<noteq> []" and "market_signal r \<noteq> []"
proof -
  have "set (map fst (sentiment_distribution r)) \<noteq> {}"
    unfolding validate_fields(1) [OF valid] by (rule insert_not_empty)
  then show "sentiment_distribution r \<noteq> []" by simp
  have "market_signal r = ''BULLISH'' \<or> market_signal r = ''BEARISH'' \<or> market_signal r = ''NEUTRAL''"
    using validate_fields(3) [OF valid] by simp
  then show "market_signal r \<noteq> []" by (elim disjE) simp_all
qed

text \<open>
  C10: a report that \<open>validate\<close> accepts is read back unchanged, in every field, from its
  own dictionary; \<open>fromisoformat\<close> reads back the timestamp that \<open>isoformat\<close> wrote, as the
  standard library documents.
\<close>

theorem report_round_trip:
  assumes iso: "fromisoformat (isoformat (timestamp r)) = Inr (timestamp r)"
    and valid: "AnalysisReport_validate r"
  shows "AnalysisReport_from_dict fromisoformat (AnalysisReport_to_dict isoformat r) = Inr r"
proof -
  have "AnalysisReport_from_dict fromisoformat (AnalysisReport_to_dict isoformat r) =
    Inr (AnalysisReport_init (timestamp r) (query r) (category r) (total_articles r)
      (sentiment_distribution r) (Some (net_sentiment_score r)) (market_signal r) (articles r)
      (processing_time r))"
    using iso by (rule from_dict_to_dict [where fromisoformat = fromisoformat and isoformat = isoformat and r = r])
  also have "\<dots> = Inr r"
    by (simp only: init_id [OF validate_nonempty [OF valid]])
  finally show ?thesis .
qed

text \<open>
  C10 (witness): the report of the integration test, the timestamp held as its ISO text.
\<close>

theorem report_round_trip_witness:
  "AnalysisReport_validate example_report
   \<and> AnalysisReport_from_dict Inr (AnalysisReport_to_dict (\<lambda>t. t) example_report) = Inr example_report"
proof -
  have v: "AnalysisReport_validate example_report" by (rule example_report_valid)
  have "AnalysisReport_from_dict Inr (AnalysisReport_to_dict (\<lambda>t. t) example_report) = Inr example_report"
    by (rule report_round_trip [where fromisoformat = Inr and isoformat = "\<lambda>t. t" and r = example_report])
       (simp, rule v)
  with v show ?thesis by (rule conjI)
qed

lemma elapse_within:
  assumes "deadline w = Some dl" "clock w \<le> dl"
  shows "deadline (snd (elapse d w)) = Some dl \<and> clock (snd (elapse d w)) \<le> dl \<and>
         (\<not> fst (elapse d w) \<longrightarrow> clock (snd (elapse d w)) = dl) \<and>
         circuit (snd (elapse d w)) = circuit w \<and> invocations (snd (elapse d w)) = invocations w"
  using assms by (simp add: elapse_def max_def)

lemma invoke_within:
  assumes "deadline w = Some dl" "clock w \<le> dl"
  shows "deadline (snd (invoke f w)) = Some dl \<and> clock (snd (invoke f w)) \<le> dl \<and>
         (fst (invoke f w) = Cancelled \<longrightarrow> clock (snd (invoke f w)) = dl) \<and>
         circuit (snd (invoke f w)) = circuit w"
proof -
  obtain duration result where f: "f (invocations w) = (duration, result)"
    by (cases "f (invocations w)")
  let ?w = "w\<lparr>invocations := Suc (invocations w)\<rparr>"
  have e: "deadline (snd (elapse duration ?w)) = Some dl \<and> clock (snd (elapse duration ?w)) \<le> dl \<and>
         (\<not> fst (elapse duration ?w) \<longrightarrow> clock (snd (elapse duration ?w)) = dl) \<and>
         circuit (snd (elapse duration ?w)) = circuit ?w"
    using elapse_within [of ?w dl duration] assms by simp
  obtain b w1 where el: "elapse duration ?w = (b, w1)" by (cases "elapse duration ?w")
  show ?thesis
    using e by (cases b; cases result) (simp_all add: invoke_def f el)
qed

lemma retry_loop_within:
  assumes "deadline w = Some dl" "clock w \<le> dl"
  shows "deadline (snd (retry_loop cfg (invoke f) n a w)) = Some dl \<and>
         clock (snd (retry_loop cfg (invoke f) n a w)) \<le> dl \<and>
         (fst (retry_loop cfg (invoke f) n a w) = Cancelled \<longrightarrow>
            clock (snd (retry_loop cfg (invoke f) n a w)) = dl) \<and>
         circuit (snd (retry_loop cfg (invoke f) n a w)) = circuit w"
  using assms
proof (induction n arbitrary: a w)
  case 0
  then show ?case using invoke_within [of w dl f] by simp
next
  case (Suc n)
  obtain r w1 where i: "invoke f w = (r, w1)" by (cases "invoke f w")
  have w1: "deadline w1 = Some dl" "clock w1 \<le> dl" "r = Cancelled \<longrightarrow> clock w1 = dl"
    "circuit w1 = circuit w"
    using invoke_within [of w dl f] Suc.prems i by simp_all
  show ?case
  proof (cases r)
    case (Ok v)
    then show ?thesis using i w1 by simp
  next
    case Cancelled
    then show ?thesis using i w1 by simp
  next
    case (Failed e)
    show ?thesis
    proof (cases "retryable e")
      case False
      then show ?thesis using i w1 Failed by simp
    next
      case True
      obtain b w2 where el: "elapse (backoff_delay cfg a) w1 = (b, w2)"
        by (cases "elapse (backoff_delay cfg a) w1")
      have w2: "deadline w2 = Some dl" "clock w2 \<le> dl" "\<not> b \<longrightarrow> clock w2 = dl"
        "circuit w2 = circuit w"
        using elapse_within [of w1 dl "backoff_delay cfg a"] w1 el by simp_all
      show ?thesis
      proof (cases b)
        case False
        then show ?thesis using i Failed True el w2 by simp
      next
        case b: True
        have "deadline (snd (retry_loop cfg (invoke f) n (Suc a) w2)) = Some dl \<and>
         clock (snd (retry_loop cfg (invoke f) n (Suc a) w2)) \<le> dl \<and>
         (fst (retry_loop cfg (invoke f) n (Suc a) w2) = Cancelled \<longrightarrow>
            clock (snd (retry_loop cfg (invoke f) n (Suc a) w2)) = dl) \<and>
         circuit (snd (retry_loop cfg (invoke f) n (Suc a) w2)) = circuit w2"
          using w2 by (intro Suc.IH) simp_all
        then show ?thesis using i Failed True el b w2 by simp
      qed
    qed
  qed
qed


lemma guarded_call_clock:
  "clock (snd (guarded_call cfg g w)) = clock (snd (g w)) \<and>
   deadline (snd (guarded_call cfg g w)) = deadline (snd (g w)) \<and>
   (fst (guarded_call cfg g w) = Cancelled \<longleftrightarrow> fst (g w) = Cancelled)"
  by (cases "g w"; cases "fst (g w)") (simp_all add: guarded_call_def)

lemma breaker_retry_within:
  assumes "deadline w = Some dl" "clock w \<le> dl"
  shows "clock (snd (with_circuit_breaker cb (with_retry rc (invoke f)) w)) \<le> dl \<and>
     (fst (with_circuit_breaker cb (with_retry rc (invoke f)) w) = Cancelled \<longrightarrow>
        clock (snd (with_circuit_breaker cb (with_retry rc (invoke f)) w)) = dl)"
proof -
  have g: "clock (snd (guarded_call cb (with_retry rc (invoke f)) w')) \<le> dl \<and>
     (fst (guarded_call cb (with_retry rc (invoke f)) w') = Cancelled \<longrightarrow>
        clock (snd (guarded_call cb (with_retry rc (invoke f)) w')) = dl)"
    if "deadline w' = Some dl" "clock w' \<le> dl" for w'
    using retry_loop_within [OF that, of rc f "max_retries rc" 0]
    by (simp add: guarded_call_clock with_retry_def)
  show ?thesis
  proof (cases "state (circuit w)")
    case Closed
    then show ?thesis using g [OF assms] by (simp add: with_circuit_breaker_def)
  next
    case HalfOpen
    then show ?thesis using g [OF assms] by (simp add: with_circuit_breaker_def)
  next
    case Open
    show ?thesis
    proof (cases "opened_at (circuit w)")
      case None
      then show ?thesis using Open assms by (simp add: with_circuit_breaker_def)
    next
      case (Some t)
      show ?thesis
        using Open Some assms g [of "w\<lparr>circuit := (circuit w)\<lparr>state := HalfOpen\<rparr>\<rparr>"]
        by (simp add: with_circuit_breaker_def)
    qed
  qed
qed

lemma protected_call_deadline:
  assumes "deadline w = None"
  shows "clock (snd (protected_call d cb rc f w)) \<le> clock w + d \<and>
         fst (protected_call d cb rc f w) \<noteq> Cancelled"
proof -
  let ?w = "w\<lparr>deadline := Some (clock w + d)\<rparr>"
  let ?g = "with_circuit_breaker cb (with_retry rc (invoke f))"
  have b: "clock (snd (?g ?w)) \<le> clock w + d \<and>
     (fst (?g ?w) = Cancelled \<longrightarrow> clock (snd (?g ?w)) = clock w + d)"
    using breaker_retry_within [of ?w "clock w + d" cb rc f] by simp
  obtain r w1 where g: "?g ?w = (r, w1)" by (cases "?g ?w")
  show ?thesis
    using b assms by (cases r) (simp_all add: protected_call_def with_timeout_def g)
qed

lemma breaker_open_short_circuit:
  assumes "state (circuit w) = Open" "opened_at (circuit w) = Some t"
    "clock w < t + recovery_timeout cb" "deadline w = None"
  shows "protected_call d cb rc f w = (Failed CircuitOpen, w)"
  using assms by (simp add: protected_call_def with_timeout_def with_circuit_breaker_def)

lemma retry_all_transient:
  assumes "\<forall>k \<le> n. snd (f (invocations w + k)) = Inl Transient"
    "deadline w = Some dl" "clock w + retry_time cfg f n a (invocations w) \<le> dl"
  shows "retry_loop cfg (invoke f) n a w =
     (Failed Transient,
      w\<lparr>clock := clock w + retry_time cfg f n a (invocations w),
        invocations := invocations w + n + 1\<rparr>)"
  using assms
proof (induction n arbitrary: a w)
  case 0
  obtain du where f: "f (invocations w) = (du, Inl Transient)"
    using "0.prems"(1) by (cases "f (invocations w)") simp
  show ?case using "0.prems" by (simp add: invoke_def elapse_def f)
next
  case (Suc n)
  obtain du where f: "f (invocations w) = (du, Inl Transient)"
    using Suc.prems(1) by (cases "f (invocations w)") (auto dest: spec [of _ 0])
  let ?w1 = "w\<lparr>invocations := invocations w + 1, clock := clock w + du\<rparr>"
  let ?w2 = "?w1\<lparr>clock := clock w + du + backoff_delay cfg a\<rparr>"
  have t: "retry_time cfg f (Suc n) a (invocations w) =
      du + backoff_delay cfg a + retry_time cfg f n (Suc a) (Suc (invocations w))"
    by (simp add: f)
  have i: "invoke f w = (Failed Transient, ?w1)"
    using Suc.prems(2,3) by (simp add: invoke_def elapse_def f t)
  have e: "elapse (backoff_delay cfg a) ?w1 = (True, ?w2)"
    using Suc.prems(2,3) by (simp add: elapse_def f)
  have "\<forall>k \<le> n. snd (f (invocations ?w2 + k)) = Inl Transient"
  proof (intro allI impI)
    fix k assume k: "k \<le> n"
    have "snd (f (invocations w + Suc k)) = Inl Transient"
      using Suc.prems(1) [rule_format, of "Suc k"] k by simp
    then show "snd (f (invocations ?w2 + k)) = Inl Transient" by simp
  qed
  moreover have "deadline ?w2 = Some dl" using Suc.prems(2) by simp
  moreover have "clock ?w2 + retry_time cfg f n (Suc a) (invocations ?w2) \<le> dl"
    using Suc.prems(3) by (simp add: f)
  ultimately have "retry_loop cfg (invoke f) n (Suc a) ?w2 =
     (Failed Transient,
      ?w2\<lparr>clock := clock ?w2 + retry_time cfg f n (Suc a) (invocations ?w2),
        invocations := invocations ?w2 + n + 1\<rparr>)"
    by (rule Suc.IH)
  then show ?case
    using e by (simp add: i retryable_def f add.assoc)
qed

lemma retries_inside_breaker:
  assumes closed: "state (circuit w) = Closed" and top: "deadline w = None"
    and fail: "\<forall>k \<le> max_retries rc. snd (f (invocations w + k)) = Inl Transient"
    and fits: "retry_time rc f (max_retries rc) 0 (invocations w) \<le> d"
  shows "fst (protected_call d cb rc f w) = Failed Transient \<and>
     invocations (snd (protected_call d cb rc f w)) = invocations w + max_retries rc + 1 \<and>
     consecutive_failures (circuit (snd (protected_call d cb rc f w))) =
       consecutive_failures (circuit w) + 1 \<and>
     clock (snd (protected_call d cb rc f w)) =
       clock w + retry_time rc f (max_retries rc) 0 (invocations w)"
proof -
  let ?w = "w\<lparr>deadline := Some (clock w + d)\<rparr>"
  let ?T = "retry_time rc f (max_retries rc) 0 (invocations w)"
  have "retry_loop rc (invoke f) (max_retries rc) 0 ?w =
     (Failed Transient,
      ?w\<lparr>clock := clock ?w + retry_time rc f (max_retries rc) 0 (invocations ?w),
        invocations := invocations ?w + max_retries rc + 1\<rparr>)"
  proof (rule retry_all_transient)
    show "\<forall>k \<le> max_retries rc. snd (f (invocations ?w + k)) = Inl Transient"
      using fail by simp
    show "deadline ?w = Some (clock w + d)" by simp
    show "clock ?w + retry_time rc f (max_retries rc) 0 (invocations ?w) \<le> clock w + d"
      using fits by simp
  qed
  then have r: "with_retry rc (invoke f) ?w =
     (Failed Transient, ?w\<lparr>clock := clock w + ?T, invocations := invocations w + max_retries rc + 1\<rparr>)"
    by (simp add: with_retry_def)
  show ?thesis
    using closed top
    by (simp add: protected_call_def with_timeout_def with_circuit_breaker_def guarded_call_def r
        record_failure_def Let_def)
qed

lemma retry_loop_cancelled:
  assumes "g w = (Cancelled, w1)"
  shows "retry_loop cfg g n a w = (Cancelled, w1)"
  using assms by (cases n) simp_all

lemma invoke_cut:
  assumes "deadline w = Some dl" "clock w \<le> dl" "dl < clock w + fst (f (invocations w))"
  shows "invoke f w = (Cancelled, w\<lparr>invocations := invocations w + 1, clock := dl\<rparr>)"
proof -
  obtain du r where f: "f (invocations w) = (du, r)" by (cases "f (invocations w)")
  show ?thesis using assms by (simp add: invoke_def elapse_def f max_def)
qed

lemma deadline_cut:
  assumes top: "deadline w = None" and closed: "state (circuit w) = Closed"
    and slow: "d < fst (f (invocations w))"
  shows "protected_call d cb rc f w =
     (Failed Timeout, w\<lparr>clock := clock w + d, invocations := invocations w + 1\<rparr>)"
proof -
  let ?w = "w\<lparr>deadline := Some (clock w + d)\<rparr>"
  have i: "invoke f ?w = (Cancelled, ?w\<lparr>invocations := invocations ?w + 1, clock := clock w + d\<rparr>)"
    by (rule invoke_cut) (use slow in simp_all)
  have r: "with_retry rc (invoke f) ?w =
      (Cancelled, ?w\<lparr>invocations := invocations ?w + 1, clock := clock w + d\<rparr>)"
    unfolding with_retry_def using i by (rule retry_loop_cancelled)
  have b: "with_circuit_breaker cb (with_retry rc (invoke f)) ?w =
      (Cancelled, ?w\<lparr>invocations := invocations ?w + 1, clock := clock w + d\<rparr>)"
    using closed by (simp add: with_circuit_breaker_def guarded_call_def r)
  show ?thesis
    using top by (simp add: protected_call_def with_timeout_def Let_def b)
qed

text \<open>
  C8: the protected call is the timeout around the circuit breaker around the retry policy
  around the underlying call, as \<open>_fetch_ticker_data\<close> is decorated. The deadline bounds the
  whole call, which ends in a Timeout failure when it is cut; an open breaker fails the call
  at once, within the deadline, with no start of the underlying call and no retry; a call whose
  attempts all fail transiently starts the underlying call max_retries + 1 times and counts as
  one failure of the breaker; a call whose first attempt outlasts the deadline is cut at the
  deadline, ends in the Timeout failure, is not retried, and leaves the breaker as it was.
\<close>

theorem resilience_composition_order:
  "fetch_ticker_data body =
     with_timeout 30000 (with_circuit_breaker source_breaker (with_retry source_retry
       (invoke (\<lambda>k. (fst (body k), Inr (snd (body k)))))))
   \<and> protected_call d cb rc f = with_timeout d (with_circuit_breaker cb (with_retry rc (invoke f)))
   \<and> (deadline w = None \<longrightarrow>
        clock (snd (protected_call d cb rc f w)) \<le> clock w + d
        \<and> fst (protected_call d cb rc f w) \<noteq> Cancelled)
   \<and> (deadline w = None \<and> state (circuit w) = Open \<and> opened_at (circuit w) = Some t
        \<and> clock w < t + recovery_timeout cb \<longrightarrow>
        protected_call d cb rc f w = (Failed CircuitOpen, w))
   \<and> (deadline w = None \<and> state (circuit w) = Closed
        \<and> (\<forall>k \<le> max_retries rc. snd (f (invocations w + k)) = Inl Transient)
        \<and> retry_time rc f (max_retries rc) 0 (invocations w) \<le> d \<longrightarrow>
        fst (protected_call d cb rc f w) = Failed Transient
        \<and> invocations (snd (protected_call d cb rc f w)) = invocations w + max_retries rc + 1
        \<and> consecutive_failures (circuit (snd (protected_call d cb rc f w))) =
            consecutive_failures (circuit w) + 1
        \<and> clock (snd (protected_call d cb rc f w)) =
            clock w + retry_time rc f (max_retries rc) 0 (invocations w))
   \<and> (deadline w = None \<and> state (circuit w) = Closed \<and> d < fst (f (invocations w)) \<longrightarrow>
        protected_call d cb rc f w =
          (Failed Timeout, w\<lparr>clock := clock w + d, invocations := invocations w + 1\<rparr>))"
proof (intro conjI impI)
  show "fetch_ticker_data body =
     with_timeout 30000 (with_circuit_breaker source_breaker (with_retry source_retry
       (invoke (\<lambda>k. (fst (body k), Inr (snd (body k)))))))"
    by (simp add: fetch_ticker_data_def protected_call_def)
next
  show "protected_call d cb rc f = with_timeout d (with_circuit_breaker cb (with_retry rc (invoke f)))"
    by (simp add: protected_call_def)
next
  assume "deadline w = None"
  then show "clock (snd (protected_call d cb rc f w)) \<le> clock w + d"
    and "fst (protected_call d cb rc f w) \<noteq> Cancelled"
    using protected_call_deadline [of w d cb rc f] by simp_all
next
  assume "deadline w = None \<and> state (circuit w) = Open \<and> opened_at (circuit w) = Some t
        \<and> clock w < t + recovery_timeout cb"
  then show "protected_call d cb rc f w = (Failed CircuitOpen, w)"
    using breaker_open_short_circuit [of w t cb d rc f] by simp
next
  assume a: "deadline w = None \<and> state (circuit w) = Closed
        \<and> (\<forall>k \<le> max_retries rc. snd (f (invocations w + k)) = Inl Transient)
        \<and> retry_time rc f (max_retries rc) 0 (invocations w) \<le> d"
  have r: "fst (protected_call d cb rc f w) = Failed Transient \<and>
     invocations (snd (protected_call d cb rc f w)) = invocations w + max_retries rc + 1 \<and>
     consecutive_failures (circuit (snd (protected_call d cb rc f w))) =
       consecutive_failures (circuit w) + 1 \<and>
     clock (snd (protected_call d cb rc f w)) =
       clock w + retry_time rc f (max_retries rc) 0 (invocations w)"
    using a by (intro retries_inside_breaker) simp_all
  show "fst (protected_call d cb rc f w) = Failed Transient" using r by simp
  show "invocations (snd (protected_call d cb rc f w)) = invocations w + max_retries rc + 1"
    using r by simp
  show "consecutive_failures (circuit (snd (protected_call d cb rc f w))) =
       consecutive_failures (circuit w) + 1" using r by simp
  show "clock (snd (protected_call d cb rc f w)) =
       clock w + retry_time rc f (max_retries rc) 0 (invocations w)" using r by simp
next
  assume "deadline w = None \<and> state (circuit w) = Closed \<and> d < fst (f (invocations w))"
  then show "protected_call d cb rc f w =
      (Failed Timeout, w\<lparr>clock := clock w + d, invocations := invocations w + 1\<rparr>)"
    using deadline_cut [of w d f cb rc] by blast
qed

lemma flaky_time: "retry_time source_retry flaky_call (max_retries source_retry) 0 0 = 3300"
  by (simp add: source_retry_def flaky_call_def backoff_delay_def eval_nat_numeral)

text \<open>
  C8 (witness): three transient failures within the deadline, an open breaker, and a call
  slower than the deadline, with the constants of the source.
\<close>

theorem resilience_composition_order_witness:
  "fst (protected_call 30000 source_breaker source_retry flaky_call fresh_world) = Failed Transient
   \<and> invocations (snd (protected_call 30000 source_breaker source_retry flaky_call fresh_world)) = 3
   \<and> consecutive_failures (circuit (snd
        (protected_call 30000 source_breaker source_retry flaky_call fresh_world))) = 1
   \<and> clock (snd (protected_call 30000 source_breaker source_retry flaky_call fresh_world)) = 3300
   \<and> protected_call 30000 source_breaker source_retry flaky_call tripped_world
        = (Failed CircuitOpen, tripped_world)
   \<and> clock (snd (protected_call 30000 source_breaker source_retry slow_call fresh_world)) \<le> 30000
   \<and> protected_call 30000 source_breaker source_retry slow_call fresh_world
        = (Failed Timeout,
           \<lparr> clock = 30000, deadline = None, invocations = 1,
             circuit = \<lparr> state = Closed, consecutive_failures = 0, opened_at = None \<rparr> \<rparr>)"
proof -
  have h1: "deadline fresh_world = None \<and> state (circuit fresh_world) = Closed
        \<and> (\<forall>k \<le> max_retries source_retry. snd (flaky_call (invocations fresh_world + k)) = Inl Transient)
        \<and> retry_time source_retry flaky_call (max_retries source_retry) 0 (invocations fresh_world) \<le> 30000"
    using flaky_time by (simp add: fresh_world_def flaky_call_def)
  have h2: "deadline tripped_world = None \<and> state (circuit tripped_world) = Open
        \<and> opened_at (circuit tripped_world) = Some 0
        \<and> clock tripped_world < 0 + recovery_timeout source_breaker"
    by (simp add: tripped_world_def source_breaker_def)
  have h3: "deadline fresh_world = None" by (simp add: fresh_world_def)
  have c: "clock fresh_world = 0" "invocations fresh_world = 0"
    "consecutive_failures (circuit fresh_world) = 0" "max_retries source_retry = 2"
    by (simp_all add: fresh_world_def source_retry_def)
  note flaky = resilience_composition_order
    [where d = 30000 and cb = source_breaker and rc = source_retry and f = flaky_call and w = fresh_world and t = 0,
     THEN conjunct2, THEN conjunct2, THEN conjunct2, THEN conjunct2, THEN conjunct1, THEN mp,
     OF h1]
  note tripped = resilience_composition_order
    [where d = 30000 and cb = source_breaker and rc = source_retry and f = flaky_call and w = tripped_world and t = 0,
     THEN conjunct2, THEN conjunct2, THEN conjunct2, THEN conjunct1, THEN mp, OF h2]
  note slow = resilience_composition_order
    [where d = 30000 and cb = source_breaker and rc = source_retry and f = slow_call and w = fresh_world and t = 0,
     THEN conjunct2, THEN conjunct2, THEN conjunct1, THEN mp, OF h3, THEN conjunct1]
  have h4: "deadline fresh_world = None \<and> state (circuit fresh_world) = Closed
        \<and> 30000 < fst (slow_call (invocations fresh_world))"
    by (simp add: fresh_world_def slow_call_def)
  note cut = resilience_composition_order
    [where d = 30000 and cb = source_breaker and rc = source_retry and f = slow_call and w = fresh_world and t = 0,
     THEN conjunct2, THEN conjunct2, THEN conjunct2, THEN conjunct2, THEN conjunct2, THEN mp,
     OF h4]
  have cut': "protected_call 30000 source_breaker source_retry slow_call fresh_world
        = (Failed Timeout,
           \<lparr> clock = 30000, deadline = None, invocations = 1,
             circuit = \<lparr> state = Closed, consecutive_failures = 0, opened_at = None \<rparr> \<rparr>)"
    unfolding cut by (simp add: fresh_world_def)
  have ft: "retry_time source_retry flaky_call 2 0 0 = 3300"
    using flaky_time by (simp only: c)
  have rest: "fst (protected_call 30000 source_breaker source_retry flaky_call fresh_world) = Failed Transient
   \<and> invocations (snd (protected_call 30000 source_breaker source_retry flaky_call fresh_world)) = 3
   \<and> consecutive_failures (circuit (snd
        (protected_call 30000 source_breaker source_retry flaky_call fresh_world))) = 1
   \<and> clock (snd (protected_call 30000 source_breaker source_retry flaky_call fresh_world)) = 3300
   \<and> protected_call 30000 source_breaker source_retry flaky_call tripped_world
        = (Failed CircuitOpen, tripped_world)
   \<and> clock (snd (protected_call 30000 source_breaker source_retry slow_call fresh_world)) \<le> 30000"
    using flaky tripped slow by (simp add: c ft)
  show ?thesis using rest cut' by blast
qed

lemma breaker_step:
  assumes "state c = Closed" "t + 100 \<le> 30000"
  shows "with_circuit_breaker source_breaker (invoke flaky_call)
           \<lparr> clock = t, deadline = Some 30000, invocations = i, circuit = c \<rparr>
         = (Failed Transient,
            \<lparr> clock = t + 100, deadline = Some 30000, invocations = i + 1,
              circuit = record_failure source_breaker (t + 100) c \<rparr>)"
  using assms
  by (simp add: with_circuit_breaker_def guarded_call_def invoke_def elapse_def flaky_call_def)

text \<open>
  With the retry policy outside the breaker instead, the same three failures trip the breaker.
\<close>

lemma retry_outside_breaker_differs:
  "circuit (snd (with_timeout 30000
      (with_retry source_retry (with_circuit_breaker source_breaker (invoke flaky_call))) fresh_world))
   = \<lparr> state = Open, consecutive_failures = 3, opened_at = Some 3300 \<rparr>"
proof -
  let ?B = "with_circuit_breaker source_breaker (invoke flaky_call)"
  let ?c0 = "\<lparr> state = Closed, consecutive_failures = 0, opened_at = None \<rparr>"
  let ?c1 = "\<lparr> state = Closed, consecutive_failures = 1, opened_at = None \<rparr>"
  let ?c2 = "\<lparr> state = Closed, consecutive_failures = 2, opened_at = None \<rparr>"
  let ?c3 = "\<lparr> state = Open, consecutive_failures = 3, opened_at = Some 3300 \<rparr>"
  have r1: "record_failure source_breaker 100 ?c0 = ?c1"
    and r2: "record_failure source_breaker 1200 ?c1 = ?c2"
    and r3: "record_failure source_breaker 3300 ?c2 = ?c3"
    by (simp_all add: record_failure_def source_breaker_def)
  have s1: "?B \<lparr> clock = 0, deadline = Some 30000, invocations = 0, circuit = ?c0 \<rparr>
      = (Failed Transient, \<lparr> clock = 100, deadline = Some 30000, invocations = 1, circuit = ?c1 \<rparr>)"
    unfolding r1 [symmetric] using breaker_step [of ?c0 0 0] by simp
  have s2: "?B \<lparr> clock = 1100, deadline = Some 30000, invocations = 1, circuit = ?c1 \<rparr>
      = (Failed Transient, \<lparr> clock = 1200, deadline = Some 30000, invocations = 2, circuit = ?c2 \<rparr>)"
    unfolding r2 [symmetric] using breaker_step [of ?c1 1100 1] by simp
  have s3: "?B \<lparr> clock = 3200, deadline = Some 30000, invocations = 2, circuit = ?c2 \<rparr>
      = (Failed Transient, \<lparr> clock = 3300, deadline = Some 30000, invocations = 3, circuit = ?c3 \<rparr>)"
    unfolding r3 [symmetric] using breaker_step [of ?c2 3200 2] by simp
  have e1: "elapse (backoff_delay source_retry 0)
        \<lparr> clock = 100, deadline = Some 30000, invocations = 1, circuit = ?c1 \<rparr>
      = (True, \<lparr> clock = 1100, deadline = Some 30000, invocations = 1, circuit = ?c1 \<rparr>)"
    by (simp add: elapse_def backoff_delay_def source_retry_def)
  have e2: "elapse (backoff_delay source_retry (Suc 0))
        \<lparr> clock = 1200, deadline = Some 30000, invocations = 2, circuit = ?c2 \<rparr>
      = (True, \<lparr> clock = 3200, deadline = Some 30000, invocations = 2, circuit = ?c2 \<rparr>)"
    by (simp add: elapse_def backoff_delay_def source_retry_def)
  have l2: "retry_loop source_retry ?B (Suc (Suc 0)) 0
        \<lparr> clock = 0, deadline = Some 30000, invocations = 0, circuit = ?c0 \<rparr>
      = (Failed Transient, \<lparr> clock = 3300, deadline = Some 30000, invocations = 3, circuit = ?c3 \<rparr>)"
    by (simp only: retry_loop.simps s1 e1 s2 e2 s3 retryable_def prod.case outcome.case
        bool.case simp_thms if_True)
  have m: "max_retries source_retry = Suc (Suc 0)" by (simp add: source_retry_def)
  have w: "fresh_world\<lparr>deadline := Some 30000\<rparr>
      = \<lparr> clock = 0, deadline = Some 30000, invocations = 0, circuit = ?c0 \<rparr>"
    by (simp add: fresh_world_def)
  have "with_retry source_retry ?B (fresh_world\<lparr>deadline := Some 30000\<rparr>)
      = (Failed Transient, \<lparr> clock = 3300, deadline = Some 30000, invocations = 3, circuit = ?c3 \<rparr>)"
    by (simp only: with_retry_def m w l2 simp_thms)
  moreover have "clock fresh_world = 0" "deadline fresh_world = None"
    by (simp_all add: fresh_world_def)
  ultimately show ?thesis
    by (simp add: with_timeout_def)
qed

text \<open>
  With the breaker outside the timeout instead, the cut call counts as a failure of the breaker.
\<close>

lemma breaker_outside_timeout_differs:
  "with_circuit_breaker source_breaker
      (with_timeout 30000 (with_retry source_retry (invoke slow_call))) fresh_world
   = (Failed Timeout,
      \<lparr> clock = 30000, deadline = None, invocations = 1,
        circuit = \<lparr> state = Closed, consecutive_failures = 1, opened_at = None \<rparr> \<rparr>)"
proof -
  let ?w = "fresh_world\<lparr>deadline := Some 30000\<rparr>"
  have i: "invoke slow_call ?w = (Cancelled, ?w\<lparr>invocations := invocations ?w + 1, clock := 30000\<rparr>)"
    by (rule invoke_cut) (simp_all add: fresh_world_def slow_call_def)
  have r: "with_retry source_retry (invoke slow_call) ?w =
      (Cancelled, ?w\<lparr>invocations := invocations ?w + 1, clock := 30000\<rparr>)"
    unfolding with_retry_def using i by (rule retry_loop_cancelled)
  have c: "clock fresh_world = 0" "deadline fresh_world = None"
    by (simp_all add: fresh_world_def)
  have t: "with_timeout 30000 (with_retry source_retry (invoke slow_call)) fresh_world =
      (Failed Timeout,
       \<lparr> clock = 30000, deadline = None, invocations = 1,
         circuit = \<lparr> state = Closed, consecutive_failures = 0, opened_at = None \<rparr> \<rparr>)"
    using r by (simp add: with_timeout_def Let_def c) (simp add: fresh_world_def)
  have s: "state (circuit fresh_world) = Closed" by (simp add: fresh_world_def)
  show ?thesis
    using s by (simp add: with_circuit_breaker_def guarded_call_def t record_failure_def
        source_breaker_def)
qed

end
